theory Spec2Isabelle
  imports Complex_Main
begin

section \<open>Numbers\<close>

text \<open>
  A JavaScript \<open>number\<close> is modelled as a real. Division is the one operation of the
  verified code whose result can leave the finite numbers on finite operands (a zero
  divisor gives NaN or an infinity), so the functions that divide also have a checked
  twin in which the quotient is \<open>js_div\<close>.
\<close>

definition js_div :: "real \<Rightarrow> real \<Rightarrow> real option" where
  "js_div a b = (if b = 0 then None else Some (a / b))"

definition isFinite :: "real \<Rightarrow> bool" where
  \<comment> \<open>\<open>Number.isFinite\<close>: every real is finite.\<close>
  "isFinite v = True"

definition hypot :: "real \<Rightarrow> real \<Rightarrow> real" where
  \<comment> \<open>\<open>Math.hypot(a, b)\<close>\<close>
  "hypot a b = sqrt (a * a + b * b)"

section \<open>Nearest point geometry (ControlPointTools.tsx, AssistLineTools.tsx)\<close>

record WorldPoint =
  wx :: real
  wz :: real

record SegmentHit =
  hit_point :: WorldPoint
  hit_t :: real
  hit_dist :: real

definition SNAP_MAX_DIST :: real where
  "SNAP_MAX_DIST = 20"

definition clamp01 :: "real \<Rightarrow> real" where
  "clamp01 n = (if n < 0 then 0 else if n > 1 then 1 else n)"

definition samePoint :: "WorldPoint \<Rightarrow> WorldPoint \<Rightarrow> bool" where
  \<comment> \<open>the default \<open>eps = 1e-9\<close>\<close>
  "samePoint a b = (\<bar>wx a - wx b\<bar> \<le> 1 / 10 ^ 9 \<and> \<bar>wz a - wz b\<bar> \<le> 1 / 10 ^ 9)"

definition dist2 :: "WorldPoint \<Rightarrow> WorldPoint \<Rightarrow> real" where
  "dist2 a b = (let dx = wx a - wx b; dz = wz a - wz b in dx * dx + dz * dz)"

text \<open>The function is the same, word for word, in both tools.\<close>

definition closestPointOnSegment :: "WorldPoint \<Rightarrow> WorldPoint \<Rightarrow> WorldPoint \<Rightarrow> SegmentHit" where
  "closestPointOnSegment p a b =
     (let abx = wx b - wx a;
          abz = wz b - wz a;
          apx = wx p - wx a;
          apz = wz p - wz a;
          denom = abx * abx + abz * abz
      in if \<not> isFinite denom \<or> denom \<le> 1 / 10 ^ 12
         then \<lparr>hit_point = a, hit_t = 0, hit_dist = hypot (wx p - wx a) (wz p - wz a)\<rparr>
         else
           let t = clamp01 ((apx * abx + apz * abz) / denom);
               q = \<lparr>wx = wx a + abx * t, wz = wz a + abz * t\<rparr>;
               d = hypot (wx p - wx q) (wz p - wz q)
           in \<lparr>hit_point = q, hit_t = t, hit_dist = d\<rparr>)"

text \<open>The same function with its division checked: \<open>None\<close> is a zero divisor.\<close>

definition closestPointOnSegment_checked ::
  "WorldPoint \<Rightarrow> WorldPoint \<Rightarrow> WorldPoint \<Rightarrow> SegmentHit option" where
  "closestPointOnSegment_checked p a b =
     (let abx = wx b - wx a;
          abz = wz b - wz a;
          apx = wx p - wx a;
          apz = wz p - wz a;
          denom = abx * abx + abz * abz
      in if \<not> isFinite denom \<or> denom \<le> 1 / 10 ^ 12
         then Some \<lparr>hit_point = a, hit_t = 0, hit_dist = hypot (wx p - wx a) (wz p - wz a)\<rparr>
         else
           (case js_div (apx * abx + apz * abz) denom of
              None \<Rightarrow> None
            | Some quot \<Rightarrow>
                let t = clamp01 quot;
                    q = \<lparr>wx = wx a + abx * t, wz = wz a + abz * t\<rparr>;
                    d = hypot (wx p - wx q) (wz p - wz q)
                in Some \<lparr>hit_point = q, hit_t = t, hit_dist = d\<rparr>))"

text \<open>
  Two notions to state what the function computes: the point of the segment from \<open>a\<close> to
  \<open>b\<close> at parameter \<open>s\<close>, and the Euclidean distance of two world points.
\<close>

definition seg_at :: "WorldPoint \<Rightarrow> WorldPoint \<Rightarrow> real \<Rightarrow> WorldPoint" where
  "seg_at a b s = \<lparr>wx = wx a + (wx b - wx a) * s, wz = wz a + (wz b - wz a) * s\<rparr>"

definition euclid :: "WorldPoint \<Rightarrow> WorldPoint \<Rightarrow> real" where
  "euclid p q = sqrt ((wx p - wx q)\<^sup>2 + (wz p - wz q)\<^sup>2)"

subsection \<open>Rings (ControlPointTools.tsx)\<close>

record GeometryRings =
  rings :: "WorldPoint list list"
  closed :: "bool list"

text \<open>
  The running best of \<open>closestPointOnRings\<close>. \<open>best_point = None\<close> is \<open>null\<close>, and
  \<open>best_dist = None\<close> is \<open>Number.POSITIVE_INFINITY\<close>.
\<close>

record RingBest =
  best_point :: "WorldPoint option"
  best_dist :: "real option"
  best_ringIndex :: int
  best_segIndex :: int
  best_t :: real

definition initial_best :: RingBest where
  "initial_best =
     \<lparr>best_point = None, best_dist = None, best_ringIndex = - 1, best_segIndex = - 1, best_t = 0\<rparr>"

definition dist_less :: "real \<Rightarrow> real option \<Rightarrow> bool" where
  \<comment> \<open>\<open>cand.dist < best.dist\<close>, where \<open>best.dist\<close> may be infinite\<close>
  "dist_less d bd = (case bd of None \<Rightarrow> True | Some e \<Rightarrow> d < e)"

definition closed_at :: "GeometryRings \<Rightarrow> nat \<Rightarrow> bool" where
  \<comment> \<open>\<open>geom.closed[r]\<close>; a missing entry is \<open>undefined\<close>, which is falsy\<close>
  "closed_at geom r = (r < length (closed geom) \<and> closed geom ! r)"

function scan_segments ::
  "WorldPoint \<Rightarrow> WorldPoint list \<Rightarrow> nat \<Rightarrow> nat \<Rightarrow> nat \<Rightarrow> RingBest \<Rightarrow> RingBest" where
  "scan_segments p ring r lastSeg i best =
     (if i < lastSeg then
        let n = length ring;
            a = ring ! i;
            b = ring ! ((i + 1) mod n);
            cand = closestPointOnSegment p a b
        in scan_segments p ring r lastSeg (i + 1)
             (if dist_less (hit_dist cand) (best_dist best)
              then \<lparr>best_point = Some (hit_point cand), best_dist = Some (hit_dist cand),
                    best_ringIndex = int r, best_segIndex = int i, best_t = hit_t cand\<rparr>
              else best)
      else best)"
  by pat_completeness auto
termination
  by (relation "measure (\<lambda>(p, ring, r, lastSeg, i, best). lastSeg - i)") auto

function scan_rings :: "WorldPoint \<Rightarrow> GeometryRings \<Rightarrow> nat \<Rightarrow> RingBest \<Rightarrow> RingBest" where
  "scan_rings p geom r best =
     (if r < length (rings geom) then
        let ring = rings geom ! r;
            cl = closed_at geom r
        in if length ring < 2 then scan_rings p geom (r + 1) best
           else
             let n = length ring;
                 lastSeg = (if cl then n else n - 1)
             in scan_rings p geom (r + 1) (scan_segments p ring r lastSeg 0 best)
      else best)"
  by pat_completeness auto
termination
  by (relation "measure (\<lambda>(p, geom, r, best). length (rings geom) - r)") auto

definition closestPointOnRings :: "WorldPoint \<Rightarrow> GeometryRings \<Rightarrow> RingBest" where
  "closestPointOnRings p geom = scan_rings p geom 0 initial_best"

definition normalizeRingsForPolygonLike :: "WorldPoint list \<Rightarrow> bool \<Rightarrow> GeometryRings" where
  "normalizeRingsForPolygonLike coords isPolygon =
     (let ring = coords;
          ring = (if length ring \<ge> 2 \<and> samePoint (ring ! 0) (ring ! (length ring - 1))
                  then butlast ring else ring)
      in \<lparr>rings = [ring], closed = [isPolygon]\<rparr>)"

text \<open>
  The segments to scan, in order, each with its ring index and its segment index: for
  a ring of \<open>n \<ge> 2\<close> points the segments from point \<open>i\<close> to point \<open>i + 1\<close>, \<open>n - 1\<close> of
  them, and for a ring whose entry of \<open>closed\<close> is true also the segment from the last
  point back to the first. And one step of the scan.
\<close>

definition ring_segments :: "WorldPoint list \<Rightarrow> bool \<Rightarrow> (nat \<times> WorldPoint \<times> WorldPoint) list" where
  "ring_segments ring cl =
     (let n = length ring
      in if n < 2 then []
         else map (\<lambda>i. (i, ring ! i, ring ! ((i + 1) mod n))) [0..<(if cl then n else n - 1)])"

definition all_segments :: "GeometryRings \<Rightarrow> (nat \<times> nat \<times> WorldPoint \<times> WorldPoint) list" where
  "all_segments geom =
     concat (map (\<lambda>r. map (\<lambda>s. (r, s))
                        (ring_segments (rings geom ! r) (r < length (closed geom) \<and> closed geom ! r)))
                 [0..<length (rings geom)])"

definition hit_of :: "WorldPoint \<Rightarrow> nat \<times> nat \<times> WorldPoint \<times> WorldPoint \<Rightarrow> RingBest" where
  "hit_of p s =
     (case s of (r, i, a, b) \<Rightarrow>
        let cand = closestPointOnSegment p a b
        in \<lparr>best_point = Some (hit_point cand), best_dist = Some (hit_dist cand),
            best_ringIndex = int r, best_segIndex = int i, best_t = hit_t cand\<rparr>)"

definition seg_dist :: "WorldPoint \<Rightarrow> nat \<times> nat \<times> WorldPoint \<times> WorldPoint \<Rightarrow> real" where
  "seg_dist p s = (case s of (r, i, a, b) \<Rightarrow> hit_dist (closestPointOnSegment p a b))"

definition pick ::
  "WorldPoint \<Rightarrow> RingBest \<Rightarrow> nat \<times> nat \<times> WorldPoint \<times> WorldPoint \<Rightarrow> RingBest" where
  "pick p best s = (if dist_less (seg_dist p s) (best_dist best) then hit_of p s else best)"

subsection \<open>Snapping to a ring target (ControlPointTools.tsx)\<close>

record SnapTarget =
  target_label :: string
  target_geom :: GeometryRings

record SnapResult =
  snap_point :: "WorldPoint option"
  blocked :: bool
  reason :: "string option"

definition reason_miss :: string where
  \<comment> \<open>the message of a miss, in UTF-8, with \<open>SNAP_MAX_DIST\<close> printed as 20\<close>
  "reason_miss =
     [CHR 0xE6, CHR 0x9C, CHR 0xAA, CHR 0xE5, CHR 0x91, CHR 0xBD, CHR 0xE4, CHR 0xB8, CHR 0xAD,
      CHR 0xEF, CHR 0xBC, CHR 0x9A, CHR 0xE8, CHR 0xB7, CHR 0x9D, CHR 0xE7, CHR 0xA6, CHR 0xBB,
      CHR 0xE7, CHR 0x9B, CHR 0xAE, CHR 0xE6, CHR 0xA0, CHR 0x87, CHR 0xE8, CHR 0xA6, CHR 0x81,
      CHR 0xE7, CHR 0xB4, CHR 0xA0, CHR 0xE8, CHR 0xB6, CHR 0x85, CHR 0xE8, CHR 0xBF, CHR 0x87,
      CHR 0x20] @ ''20'' @ [CHR 0x20, CHR 0xE6, CHR 0xA0, CHR 0xBC]"

definition applySnap :: "bool \<Rightarrow> SnapTarget option \<Rightarrow> WorldPoint \<Rightarrow> SnapResult" where
  "applySnap snapEnabled snapTarget p =
     (if \<not> snapEnabled then \<lparr>snap_point = Some p, blocked = False, reason = None\<rparr>
      else case snapTarget of
        None \<Rightarrow> \<lparr>snap_point = Some p, blocked = False, reason = None\<rparr>
      | Some tgt \<Rightarrow>
          let best = closestPointOnRings p (target_geom tgt)
          in case (best_point best, best_dist best) of
               (Some q, Some d) \<Rightarrow>
                 if d > SNAP_MAX_DIST
                 then \<lparr>snap_point = None, blocked = True, reason = Some reason_miss\<rparr>
                 else \<lparr>snap_point = Some q, blocked = False, reason = None\<rparr>
             | _ \<Rightarrow> \<lparr>snap_point = Some p, blocked = False, reason = None\<rparr>)"

subsection \<open>Inserting a control point (ControlPointTools.tsx, add mode)\<close>

datatype LayerMode = ModePoint | ModePolyline | ModePolygon

text \<open>
  A layer, without its colour, its visibility and its Leaflet group, which the handler
  does not read.
\<close>

record MeasuringLayerLite =
  layer_id :: int
  layer_mode :: LayerMode
  layer_coords :: "WorldPoint list"

definition getEffectiveCoords ::
  "(int \<rightharpoonup> WorldPoint list) \<Rightarrow> MeasuringLayerLite \<Rightarrow> WorldPoint list" where
  "getEffectiveCoords pendingEdits layer =
     (case pendingEdits (layer_id layer) of Some edited \<Rightarrow> edited | None \<Rightarrow> layer_coords layer)"

definition insertIndex_of :: "LayerMode \<Rightarrow> int \<Rightarrow> nat \<Rightarrow> nat" where
  "insertIndex_of lmode segIndex n =
     (if lmode = ModePolygon then
        (if segIndex \<ge> int n - 1 then n else nat (segIndex + 1))
      else if segIndex < 0 then n
      else nat (min (segIndex + 1) (int n)))"

definition splice_insert :: "nat \<Rightarrow> 'a \<Rightarrow> 'a list \<Rightarrow> 'a list" where
  \<comment> \<open>\<open>xs.splice(k, 0, v)\<close> on a copy, for \<open>k \<ge> 0\<close>\<close>
  "splice_insert k v xs = take k xs @ [v] @ drop k xs"

text \<open>
  The click handler of the add mode: \<open>w\<close> is the clicked point in world coordinates
  (\<open>None\<close> when there is no projection), and the result is the new table of pending
  edits, unchanged on every early return. The status line is left out.
\<close>

definition onMapClick_add ::
  "bool \<Rightarrow> int option \<Rightarrow> MeasuringLayerLite list \<Rightarrow> (int \<rightharpoonup> WorldPoint list) \<Rightarrow>
   WorldPoint option \<Rightarrow> (int \<rightharpoonup> WorldPoint list)" where
  "onMapClick_add addEnabled addTargetLayerId measuringLayers pendingEdits w =
     (if \<not> addEnabled then pendingEdits
      else case addTargetLayerId of
        None \<Rightarrow> pendingEdits
      | Some target \<Rightarrow>
         (case w of
            None \<Rightarrow> pendingEdits
          | Some w \<Rightarrow>
             (case find (\<lambda>l. layer_id l = target) measuringLayers of
                None \<Rightarrow> pendingEdits
              | Some layer \<Rightarrow>
                  if layer_mode layer \<noteq> ModePolyline \<and> layer_mode layer \<noteq> ModePolygon
                  then pendingEdits
                  else
                    let geom = normalizeRingsForPolygonLike
                                 (getEffectiveCoords pendingEdits layer)
                                 (layer_mode layer = ModePolygon);
                        best = closestPointOnRings w geom
                    in case (best_point best, best_dist best) of
                         (Some q, Some d) \<Rightarrow>
                           if d > SNAP_MAX_DIST then pendingEdits
                           else
                             let coords = rings geom ! 0
                             in if length coords < 2 then pendingEdits
                                else
                                  let segIndex = best_segIndex best;
                                      n = length coords;
                                      insertIndex = insertIndex_of (layer_mode layer) segIndex n;
                                      nextCoords = splice_insert insertIndex q coords
                                  in pendingEdits(layer_id layer \<mapsto> nextCoords)
                       | _ \<Rightarrow> pendingEdits)))"

subsection \<open>Snapping to an assist line (AssistLineTools.tsx)\<close>

datatype FixedAxis = AxisX | AxisZ

datatype AssistLineTarget =
    FixedLine FixedAxis real string
  | LeafletFeature string GeometryRings

record AssistLineSnapResult =
  res_point :: WorldPoint
  snapped :: bool
  res_dist :: "real option"
  targetLabel :: "string option"

record AssistBest =
  abest_point :: "WorldPoint option"
  abest_dist :: "real option"

function assist_scan_segments ::
  "WorldPoint \<Rightarrow> WorldPoint list \<Rightarrow> nat \<Rightarrow> nat \<Rightarrow> AssistBest \<Rightarrow> AssistBest" where
  "assist_scan_segments p ring lastSeg i best =
     (if i < lastSeg then
        let n = length ring;
            a = ring ! i;
            b = ring ! ((i + 1) mod n);
            cand = closestPointOnSegment p a b
        in assist_scan_segments p ring lastSeg (i + 1)
             (if dist_less (hit_dist cand) (abest_dist best)
              then \<lparr>abest_point = Some (hit_point cand), abest_dist = Some (hit_dist cand)\<rparr>
              else best)
      else best)"
  by pat_completeness auto
termination
  by (relation "measure (\<lambda>(p, ring, lastSeg, i, best). lastSeg - i)") auto

function assist_scan_rings :: "WorldPoint \<Rightarrow> GeometryRings \<Rightarrow> nat \<Rightarrow> AssistBest \<Rightarrow> AssistBest" where
  "assist_scan_rings p geom r best =
     (if r < length (rings geom) then
        let ring = rings geom ! r;
            cl = closed_at geom r
        in if length ring < 2 then assist_scan_rings p geom (r + 1) best
           else
             let n = length ring;
                 lastSeg = (if cl then n else n - 1)
             in assist_scan_rings p geom (r + 1) (assist_scan_segments p ring lastSeg 0 best)
      else best)"
  by pat_completeness auto
termination
  by (relation "measure (\<lambda>(p, geom, r, best). length (rings geom) - r)") auto

definition assist_closestPointOnRings :: "WorldPoint \<Rightarrow> GeometryRings \<Rightarrow> AssistBest" where
  "assist_closestPointOnRings p geom =
     assist_scan_rings p geom 0 \<lparr>abest_point = None, abest_dist = None\<rparr>"

definition target_label_of :: "AssistLineTarget \<Rightarrow> string" where
  "target_label_of tg = (case tg of FixedLine ax v l \<Rightarrow> l | LeafletFeature l g \<Rightarrow> l)"

definition transformWorldPoint ::
  "bool \<Rightarrow> AssistLineTarget option \<Rightarrow> real \<Rightarrow> WorldPoint \<Rightarrow> AssistLineSnapResult" where
  "transformWorldPoint enabled target threshold p =
     (if \<not> enabled then \<lparr>res_point = p, snapped = False, res_dist = None, targetLabel = None\<rparr>
      else case target of
        None \<Rightarrow> \<lparr>res_point = p, snapped = False, res_dist = None, targetLabel = None\<rparr>
      | Some (FixedLine axis v label) \<Rightarrow>
          let d = (if axis = AxisX then \<bar>wx p - v\<bar> else \<bar>wz p - v\<bar>)
          in if d \<le> threshold then
               let snappedPoint = (if axis = AxisX then \<lparr>wx = v, wz = wz p\<rparr>
                                   else \<lparr>wx = wx p, wz = v\<rparr>)
               in \<lparr>res_point = snappedPoint, snapped = True, res_dist = Some d,
                   targetLabel = Some label\<rparr>
             else \<lparr>res_point = p, snapped = False, res_dist = Some d, targetLabel = Some label\<rparr>
      | Some (LeafletFeature label geom) \<Rightarrow>
          let best = assist_closestPointOnRings p geom;
              d = abest_dist best
          in case (abest_point best, d) of
               (Some q, Some d') \<Rightarrow>
                 if d' \<le> threshold
                 then \<lparr>res_point = q, snapped = True, res_dist = Some d', targetLabel = Some label\<rparr>
                 else \<lparr>res_point = p, snapped = False, res_dist = d, targetLabel = Some label\<rparr>
             | _ \<Rightarrow> \<lparr>res_point = p, snapped = False, res_dist = d, targetLabel = Some label\<rparr>)"

section \<open>Coordinate transform (rmpParser, rmpPathCalculator)\<close>

record Point2D =
  px :: real
  py :: real

record Coordinate =
  cx :: real
  cy :: real
  cz :: real

record CoordTransformConfig =
  scale :: real
  offset :: real
  multiplier :: real

definition DEFAULT_COORD_CONFIG :: CoordTransformConfig where
  "DEFAULT_COORD_CONFIG = \<lparr>scale = 1, offset = 0.05, multiplier = 10\<rparr>"

definition WORLD_COORD_CONFIGS :: "string \<Rightarrow> CoordTransformConfig option" where
  "WORLD_COORD_CONFIGS worldId =
     (if worldId = ''zth'' then Some \<lparr>scale = 1, offset = 0.05, multiplier = 10\<rparr>
      else if worldId = ''houtu'' then Some \<lparr>scale = 1, offset = 0, multiplier = 4\<rparr>
      else None)"

definition rmpToGameCoord :: "real \<Rightarrow> real \<Rightarrow> CoordTransformConfig \<Rightarrow> Coordinate" where
  "rmpToGameCoord x y config =
     \<lparr>cx = (x * scale config + offset config) * multiplier config,
      cy = 64,
      cz = (y * scale config + offset config) * multiplier config\<rparr>"

definition toGameCoord :: "Point2D \<Rightarrow> CoordTransformConfig \<Rightarrow> Coordinate" where
  "toGameCoord p config =
     \<lparr>cx = (px p * scale config + offset config) * multiplier config,
      cy = 64,
      cz = (py p * scale config + offset config) * multiplier config\<rparr>"

definition coordConfig_of :: "string \<Rightarrow> CoordTransformConfig" where
  \<comment> \<open>\<open>WORLD_COORD_CONFIGS[worldId] || DEFAULT_COORD_CONFIG\<close>, as \<open>parseRMPData\<close> selects it,
      for a \<open>worldId\<close> that is not a property inherited from \<open>Object.prototype\<close>\<close>
  "coordConfig_of worldId =
     (case WORLD_COORD_CONFIGS worldId of Some c \<Rightarrow> c | None \<Rightarrow> DEFAULT_COORD_CONFIG)"

section \<open>Path calculator (rmpPathCalculator)\<close>

datatype SegmentType = SegLine | SegQuadratic

record PathSegment =
  seg_type :: SegmentType
  points :: "Coordinate list"

record EdgePath =
  segments :: "PathSegment list"
  path_length :: real

datatype StartFrom = From | To

record PerpendicularConfig =
  startFrom :: StartFrom
  offsetFrom :: real
  offsetTo :: real
  roundCornerFactor :: real

type_synonym DiagonalConfig = PerpendicularConfig

record SimpleConfig =
  simple_offset :: real

definition normalize_vec :: "Point2D \<Rightarrow> Point2D" where
  "normalize_vec v =
     (let len = sqrt (px v * px v + py v * py v)
      in if len > 0 then \<lparr>px = px v / len, py = py v / len\<rparr> else \<lparr>px = 0, py = 0\<rparr>)"

text \<open>The same function with its divisions checked: \<open>None\<close> is a zero divisor.\<close>

definition normalize_vec_checked :: "Point2D \<Rightarrow> Point2D option" where
  "normalize_vec_checked v =
     (let len = sqrt (px v * px v + py v * py v)
      in if len > 0 then
           (case (js_div (px v) len, js_div (py v) len) of
              (Some qx, Some qy) \<Rightarrow> Some \<lparr>px = qx, py = qy\<rparr>
            | _ \<Rightarrow> None)
         else Some \<lparr>px = 0, py = 0\<rparr>)"

definition perpendicular :: "Point2D \<Rightarrow> Point2D" where
  "perpendicular v = \<lparr>px = - py v, py = px v\<rparr>"

definition distance :: "Point2D \<Rightarrow> Point2D \<Rightarrow> real" where
  "distance p1 p2 =
     (let dx = px p2 - px p1;
          dy = py p2 - py p1
      in sqrt (dx * dx + dy * dy))"

definition bezier_point :: "Point2D \<Rightarrow> Point2D \<Rightarrow> Point2D \<Rightarrow> nat \<Rightarrow> nat \<Rightarrow> Point2D" where
  \<comment> \<open>the point \<open>curr\<close> of step \<open>i\<close> of the loop of \<open>quadraticBezierLength\<close>\<close>
  "bezier_point p0 p1 p2 i n =
     (let t = real i / real n;
          mt = 1 - t
      in \<lparr>px = mt * mt * px p0 + 2 * mt * t * px p1 + t * t * px p2,
          py = mt * mt * py p0 + 2 * mt * t * py p1 + t * t * py p2\<rparr>)"

function bezier_loop ::
  "Point2D \<Rightarrow> Point2D \<Rightarrow> Point2D \<Rightarrow> nat \<Rightarrow> nat \<Rightarrow> real \<Rightarrow> Point2D \<Rightarrow> real" where
  "bezier_loop p0 p1 p2 n i len prev =
     (if i \<le> n then
        let curr = bezier_point p0 p1 p2 i n
        in bezier_loop p0 p1 p2 n (i + 1) (len + distance prev curr) curr
      else len)"
  by pat_completeness auto
termination
  by (relation "measure (\<lambda>(p0, p1, p2, n, i, len, prev). n + 1 - i)") auto

definition quadraticBezierLength :: "Point2D \<Rightarrow> Point2D \<Rightarrow> Point2D \<Rightarrow> real" where
  "quadraticBezierLength p0 p1 p2 = bezier_loop p0 p1 p2 10 1 0 p0"

record RoundCorner =
  cornerStart :: Point2D
  cornerEnd :: Point2D
  control :: Point2D

definition applyRoundCorner :: "Point2D \<Rightarrow> Point2D \<Rightarrow> Point2D \<Rightarrow> real \<Rightarrow> RoundCorner" where
  "applyRoundCorner before corner after factor =
     (let v1 = normalize_vec \<lparr>px = px before - px corner, py = py before - py corner\<rparr>;
          v2 = normalize_vec \<lparr>px = px after - px corner, py = py after - py corner\<rparr>;
          dist1 = distance corner before;
          dist2 = distance corner after;
          maxFactor = min dist1 dist2 * 0.5;
          clampedFactor = min factor maxFactor
      in \<lparr>cornerStart = \<lparr>px = px corner + px v1 * clampedFactor,
                         py = py corner + py v1 * clampedFactor\<rparr>,
          cornerEnd = \<lparr>px = px corner + px v2 * clampedFactor,
                       py = py corner + py v2 * clampedFactor\<rparr>,
          control = corner\<rparr>)"

text \<open>
  The builders grow a list of segments and a total length by blocks of one shape: measure
  a piece in diagram space and, if it is longer than 0.001, push its segment in world
  coordinates and add its length times the multiplier. \<open>push_line\<close> and
  \<open>push_quadratic\<close> are these blocks, on the pair of the list and the total.
\<close>

definition push_line ::
  "Point2D \<Rightarrow> Point2D \<Rightarrow> CoordTransformConfig \<Rightarrow> PathSegment list \<times> real \<Rightarrow>
   PathSegment list \<times> real" where
  "push_line a b coordConfig acc =
     (let d = distance a b
      in if d > 0.001
         then (fst acc @ [\<lparr>seg_type = SegLine,
                           points = [toGameCoord a coordConfig, toGameCoord b coordConfig]\<rparr>],
               snd acc + d * multiplier coordConfig)
         else acc)"

definition push_quadratic ::
  "Point2D \<Rightarrow> Point2D \<Rightarrow> Point2D \<Rightarrow> CoordTransformConfig \<Rightarrow> PathSegment list \<times> real \<Rightarrow>
   PathSegment list \<times> real" where
  "push_quadratic a c b coordConfig acc =
     (let curveLength = quadraticBezierLength a c b
      in if curveLength > 0.001
         then (fst acc @ [\<lparr>seg_type = SegQuadratic,
                           points = [toGameCoord a coordConfig, toGameCoord c coordConfig,
                                     toGameCoord b coordConfig]\<rparr>],
               snd acc + curveLength * multiplier coordConfig)
         else acc)"

definition calculatePerpendicularPath ::
  "Point2D \<Rightarrow> Point2D \<Rightarrow> PerpendicularConfig \<Rightarrow> CoordTransformConfig \<Rightarrow> EdgePath" where
  "calculatePerpendicularPath from to config coordConfig =
     (let dx = px to - px from;
          dy = py to - py from;
          dir = normalize_vec \<lparr>px = dx, py = dy\<rparr>;
          perpDir = perpendicular dir;
          p1 = \<lparr>px = px from + px perpDir * offsetFrom config,
                py = py from + py perpDir * offsetFrom config\<rparr>;
          p2 = \<lparr>px = px to + px perpDir * offsetTo config,
                py = py to + py perpDir * offsetTo config\<rparr>;
          isHorizontalDominant = (\<bar>dx\<bar> \<ge> \<bar>dy\<bar>);
          corner =
            (if startFrom config = From then
               (if isHorizontalDominant then \<lparr>px = px p2, py = py p1\<rparr>
                else \<lparr>px = px p1, py = py p2\<rparr>)
             else
               (if isHorizontalDominant then \<lparr>px = px p1, py = py p2\<rparr>
                else \<lparr>px = px p2, py = py p1\<rparr>));
          rc = applyRoundCorner p1 corner p2 (roundCornerFactor config);
          acc = ([], 0);
          acc = push_line p1 (cornerStart rc) coordConfig acc;
          acc = push_quadratic (cornerStart rc) (control rc) (cornerEnd rc) coordConfig acc;
          acc = push_line (cornerEnd rc) p2 coordConfig acc
      in \<lparr>segments = fst acc, path_length = snd acc\<rparr>)"

definition js_sign_or_1 :: "real \<Rightarrow> real" where
  \<comment> \<open>\<open>Math.sign(v) || 1\<close>: the sign 0 is falsy\<close>
  "js_sign_or_1 v = (if sgn v = 0 then 1 else sgn v)"

definition calculateDiagonalPath ::
  "Point2D \<Rightarrow> Point2D \<Rightarrow> DiagonalConfig \<Rightarrow> CoordTransformConfig \<Rightarrow> EdgePath" where
  "calculateDiagonalPath from to config coordConfig =
     (let dx = px to - px from;
          dy = py to - py from;
          dir = normalize_vec \<lparr>px = dx, py = dy\<rparr>;
          perpDir = perpendicular dir;
          p1 = \<lparr>px = px from + px perpDir * offsetFrom config,
                py = py from + py perpDir * offsetFrom config\<rparr>;
          p2 = \<lparr>px = px to + px perpDir * offsetTo config,
                py = py to + py perpDir * offsetTo config\<rparr>;
          newDx = px p2 - px p1;
          newDy = py p2 - py p1;
          diagonalLen = min \<bar>newDx\<bar> \<bar>newDy\<bar>;
          signX = js_sign_or_1 newDx;
          signY = js_sign_or_1 newDy;
          corners =
            (if startFrom config = From then
               let midX = px p1 + (newDx - signX * diagonalLen) / 2;
                   midY = py p1
               in (\<lparr>px = midX, py = midY\<rparr>,
                   \<lparr>px = midX + signX * diagonalLen, py = midY + signY * diagonalLen\<rparr>)
             else
               let midX = px p2 - (newDx - signX * diagonalLen) / 2;
                   midY = py p2
               in (\<lparr>px = midX - signX * diagonalLen, py = midY - signY * diagonalLen\<rparr>,
                   \<lparr>px = midX, py = midY\<rparr>));
          corner1 = fst corners;
          corner2 = snd corners;
          round1 = applyRoundCorner p1 corner1 corner2 (roundCornerFactor config);
          round2 = applyRoundCorner corner1 corner2 p2 (roundCornerFactor config);
          acc = ([], 0);
          acc = push_line p1 (cornerStart round1) coordConfig acc;
          acc = push_quadratic (cornerStart round1) (control round1) (cornerEnd round1)
                  coordConfig acc;
          acc = push_line (cornerEnd round1) (cornerStart round2) coordConfig acc;
          acc = push_quadratic (cornerStart round2) (control round2) (cornerEnd round2)
                  coordConfig acc;
          acc = push_line (cornerEnd round2) p2 coordConfig acc
      in \<lparr>segments = fst acc, path_length = snd acc\<rparr>)"

definition calculateSimplePath ::
  "Point2D \<Rightarrow> Point2D \<Rightarrow> SimpleConfig \<Rightarrow> CoordTransformConfig \<Rightarrow> EdgePath" where
  "calculateSimplePath from to config coordConfig =
     (let dx = px to - px from;
          dy = py to - py from;
          dir = normalize_vec \<lparr>px = dx, py = dy\<rparr>;
          perpDir = perpendicular dir;
          p1 = \<lparr>px = px from + px perpDir * simple_offset config,
                py = py from + py perpDir * simple_offset config\<rparr>;
          p2 = \<lparr>px = px to + px perpDir * simple_offset config,
                py = py to + py perpDir * simple_offset config\<rparr>;
          len = distance p1 p2 * multiplier coordConfig
      in \<lparr>segments = [\<lparr>seg_type = SegLine,
                        points = [toGameCoord p1 coordConfig, toGameCoord p2 coordConfig]\<rparr>],
          path_length = len\<rparr>)"

definition calculateStraightPath :: "Point2D \<Rightarrow> Point2D \<Rightarrow> CoordTransformConfig \<Rightarrow> EdgePath" where
  "calculateStraightPath from to coordConfig =
     (let len = distance from to * multiplier coordConfig
      in \<lparr>segments = [\<lparr>seg_type = SegLine,
                        points = [toGameCoord from coordConfig, toGameCoord to coordConfig]\<rparr>],
          path_length = len\<rparr>)"

text \<open>
  The length of a path as measured on its world-space points, in the world plane (the
  elevation of every point is the constant 64): the distance of its two points for a
  line, the ten-step chord sum over its three control points for a quadratic curve.
\<close>

definition xz :: "Coordinate \<Rightarrow> Point2D" where
  "xz c = \<lparr>px = cx c, py = cz c\<rparr>"

definition segment_world_length :: "PathSegment \<Rightarrow> real" where
  "segment_world_length s =
     (case (seg_type s, points s) of
        (SegLine, [a, b]) \<Rightarrow> distance (xz a) (xz b)
      | (SegQuadratic, [a, c, b]) \<Rightarrow> quadraticBezierLength (xz a) (xz c) (xz b)
      | _ \<Rightarrow> 0)"

definition path_world_length :: "PathSegment list \<Rightarrow> real" where
  "path_world_length segs = sum_list (map segment_world_length segs)"

text \<open>
  The invariant of the accumulation: the world-space sum of the pushed segments is
  \<open>|scale|\<close> times the running total, for a multiplier that is not negative.
\<close>

definition length_inv :: "CoordTransformConfig \<Rightarrow> PathSegment list \<times> real \<Rightarrow> bool" where
  "length_inv cc acc = (path_world_length (fst acc) = \<bar>scale cc\<bar> * snd acc)"

section \<open>Graph to lines (rmpParser)\<close>

text \<open>
  A node with the attributes the parser reads. Each station payload is reduced to its
  list of names, the badge payload to its names and its colour; \<open>None\<close> is an absent
  payload.
\<close>

record RMPNode =
  node_key :: string
  node_x :: real
  node_y :: real
  node_type :: string
  bjsubway_int :: "string list option"
  bjsubway_basic :: "string list option"
  suzhourt_basic :: "string list option"
  shmetro_int :: "string list option"
  line_badge :: "(string list \<times> string list) option"

record RMPEdge =
  edge_key :: string
  edge_source :: string
  edge_target :: string
  edge_visible :: bool
  edge_type :: string
  single_color :: "string list option"
  perpendicular_config :: "PerpendicularConfig option"
  diagonal_config :: "DiagonalConfig option"
  simple_config :: "SimpleConfig option"

record RMPData =
  graph_nodes :: "RMPNode list"
  graph_edges :: "RMPEdge list"

record ParsedStation =
  st_name :: string
  st_coord :: Coordinate
  stationCode :: nat
  isTransfer :: bool
  st_lines :: "string list"

record ParsedLine =
  bureau :: string
  line_name :: string
  lineId :: string
  line_stations :: "ParsedStation list"
  line_color :: string
  edgePaths :: "EdgePath list"

record ParseResult =
  parsed_lines :: "ParsedLine list"
  parsed_stations :: "ParsedStation list"

definition getStationName :: "RMPNode \<Rightarrow> string option" where
  "getStationName node =
     (let typeData =
            (case bjsubway_int node of Some d \<Rightarrow> Some d
             | None \<Rightarrow>
            (case bjsubway_basic node of Some d \<Rightarrow> Some d
             | None \<Rightarrow>
            (case suzhourt_basic node of Some d \<Rightarrow> Some d
             | None \<Rightarrow> shmetro_int node)))
      in case typeData of
           Some (n # ns) \<Rightarrow> Some n
         | _ \<Rightarrow> None)"

definition isStationNode :: "RMPNode \<Rightarrow> bool" where
  "isStationNode node =
     (let type = node_type node
      in type = ''bjsubway-int'' \<or> type = ''bjsubway-basic'' \<or> type = ''suzhourt-basic''
         \<or> type = ''shmetro-int'')"

definition isTransferStation :: "RMPNode \<Rightarrow> bool" where
  "isTransferStation node =
     (let type = node_type node in type = ''bjsubway-int'' \<or> type = ''shmetro-int'')"

definition getEdgeColor :: "RMPEdge \<Rightarrow> string" where
  "getEdgeColor edge =
     (case single_color edge of
        Some color \<Rightarrow> if length color \<ge> 3 then color ! 2 else ''#888888''
      | None \<Rightarrow> ''#888888'')"

text \<open>The badge table, colour to name; a later badge of the same colour replaces an earlier one.\<close>

fun getLineBadges :: "RMPNode list \<Rightarrow> (string \<rightharpoonup> string) \<Rightarrow> (string \<rightharpoonup> string)" where
  "getLineBadges [] badges = badges"
| "getLineBadges (node # nodes) badges =
     getLineBadges nodes
       (if node_type node = ''bjsubway-text-line-badge'' then
          (case line_badge node of
             Some (n # ns, color) \<Rightarrow>
               badges((if length color \<ge> 3 then color ! 2 else ''#888888'') \<mapsto> n)
           | _ \<Rightarrow> badges)
        else badges)"

fun build_nodeMap :: "RMPNode list \<Rightarrow> (string \<rightharpoonup> RMPNode) \<Rightarrow> (string \<rightharpoonup> RMPNode)" where
  "build_nodeMap [] nodeMap = nodeMap"
| "build_nodeMap (node # nodes) nodeMap = build_nodeMap nodes (nodeMap(node_key node \<mapsto> node))"

text \<open>
  A JavaScript \<open>Map\<close> or \<open>Set\<close> that the code iterates is a list in insertion order:
  \<open>linesByColor\<close>, the adjacency map and its neighbour sets, and the table of all stations.
\<close>

fun group_push :: "string \<Rightarrow> RMPEdge \<Rightarrow> (string \<times> RMPEdge list) list \<Rightarrow> (string \<times> RMPEdge list) list" where
  "group_push color edge [] = [(color, [edge])]"
| "group_push color edge ((c, es) # groups) =
     (if c = color then (c, es @ [edge]) # groups else (c, es) # group_push color edge groups)"

fun group_by_color :: "RMPEdge list \<Rightarrow> (string \<times> RMPEdge list) list \<Rightarrow> (string \<times> RMPEdge list) list" where
  "group_by_color [] linesByColor = linesByColor"
| "group_by_color (edge # edges) linesByColor =
     group_by_color edges
       (if \<not> edge_visible edge then linesByColor
        else group_push (getEdgeColor edge) edge linesByColor)"

definition set_add :: "string \<Rightarrow> string list \<Rightarrow> string list" where
  \<comment> \<open>\<open>Set.add\<close>\<close>
  "set_add v vs = (if v \<in> set vs then vs else vs @ [v])"

definition adj_ensure :: "string \<Rightarrow> (string \<times> string list) list \<Rightarrow> (string \<times> string list) list" where
  \<comment> \<open>\<open>if (!adj.has(k)) adj.set(k, new Set())\<close>\<close>
  "adj_ensure k adj = (if k \<in> fst ` set adj then adj else adj @ [(k, [])])"

definition adj_add :: "string \<Rightarrow> string \<Rightarrow> (string \<times> string list) list \<Rightarrow> (string \<times> string list) list" where
  \<comment> \<open>\<open>adj.get(k).add(v)\<close>\<close>
  "adj_add k v adj = map (\<lambda>(k', vs). if k' = k then (k', set_add v vs) else (k', vs)) adj"

definition edge_name :: "string \<Rightarrow> string \<Rightarrow> string" where
  \<comment> \<open>the key \<open>`${a}->${b}`\<close> of the edge table\<close>
  "edge_name a b = a @ ''->'' @ b"

fun buildAdjacencyWithEdges ::
  "RMPEdge list \<Rightarrow> (string \<times> string list) list \<times> (string \<rightharpoonup> RMPEdge) \<Rightarrow>
   (string \<times> string list) list \<times> (string \<rightharpoonup> RMPEdge)" where
  "buildAdjacencyWithEdges [] acc = acc"
| "buildAdjacencyWithEdges (edge # edges) (adj, edgeMap) =
     (let adj = adj_ensure (edge_source edge) adj;
          adj = adj_ensure (edge_target edge) adj;
          adj = adj_add (edge_source edge) (edge_target edge) adj;
          adj = adj_add (edge_target edge) (edge_source edge) adj;
          edgeMap = edgeMap(edge_name (edge_source edge) (edge_target edge) \<mapsto> edge);
          edgeMap = edgeMap(edge_name (edge_target edge) (edge_source edge) \<mapsto> edge)
      in buildAdjacencyWithEdges edges (adj, edgeMap))"

record DfsState =
  visited :: "string set"
  dfs_nodes :: "string list"
  dfs_edges :: "RMPEdge list"

text \<open>
  The recursive closure \<open>dfs(node, prevNode)\<close> with its calls made explicit: the list
  \<open>todo\<close> holds the calls still to make, \<open>(neighbor, node)\<close> for every iteration left of
  the \<open>for\<close> loops of the calls in progress, innermost first. A call on a visited node
  returns at once, which is also the loop's own test. An empty key is falsy, so the edge
  from a node with the key \<open>''''\<close> is not recorded. The recursion itself is \<open>dfs_rec\<close>
  below, and \<open>dfs_is_the_recursion\<close> shows that the two agree.
\<close>

definition dfs_visit :: "(string \<rightharpoonup> RMPEdge) \<Rightarrow> string \<Rightarrow> string option \<Rightarrow> DfsState \<Rightarrow> DfsState" where
  "dfs_visit edgeMap node prevNode st =
     (let st = st\<lparr>visited := insert node (visited st), dfs_nodes := dfs_nodes st @ [node]\<rparr>
      in case prevNode of
           None \<Rightarrow> st
         | Some prev \<Rightarrow>
             if prev = [] then st
             else (case edgeMap (edge_name prev node) of
                     Some edge \<Rightarrow> st\<lparr>dfs_edges := dfs_edges st @ [edge]\<rparr>
                   | None \<Rightarrow> st))"

definition neighbors_of :: "(string \<times> string list) list \<Rightarrow> string \<Rightarrow> string list" where
  \<comment> \<open>\<open>adj.get(node) || new Set()\<close>\<close>
  "neighbors_of adj node = (case map_of adj node of Some ns \<Rightarrow> ns | None \<Rightarrow> [])"

function dfs ::
  "(string \<times> string list) list \<Rightarrow> (string \<rightharpoonup> RMPEdge) \<Rightarrow> (string \<times> string option) list \<Rightarrow>
   DfsState \<Rightarrow> DfsState" where
  "dfs adj edgeMap [] st = st"
| "dfs adj edgeMap ((node, prevNode) # todo) st =
     (if node \<in> visited st then dfs adj edgeMap todo st
      else dfs adj edgeMap (map (\<lambda>neighbor. (neighbor, Some node)) (neighbors_of adj node) @ todo)
             (dfs_visit edgeMap node prevNode st))"
  by pat_completeness auto

termination dfs
proof (relation "inv_image (less_than <*lex*> less_than)
                  (\<lambda>(adj, edgeMap, todo, st). (card (fst ` set adj - visited st), length todo))")
  show "wf (inv_image (less_than <*lex*> less_than)
             (\<lambda>(adj, edgeMap, todo, st). (card (fst ` set adj - visited st), length todo)))"
    by (intro wf_inv_image wf_lex_prod wf_less_than)
next
  fix adj :: "(string \<times> string list) list" and edgeMap :: "string \<rightharpoonup> RMPEdge"
    and node prevNode todo and st :: DfsState
  assume "node \<in> visited st"
  show "((adj, edgeMap, todo, st), (adj, edgeMap, (node, prevNode) # todo, st))
        \<in> inv_image (less_than <*lex*> less_than)
            (\<lambda>(adj, edgeMap, todo, st). (card (fst ` set adj - visited st), length todo))"
    by simp
next
  fix adj :: "(string \<times> string list) list" and edgeMap :: "string \<rightharpoonup> RMPEdge"
    and node prevNode todo and st :: DfsState
  assume new: "node \<notin> visited st"
  let ?keys = "fst ` set adj"
  have visited_dfs_visit:
    "visited (dfs_visit edgeMap node prevNode st) = insert node (visited st)"
    by (simp add: dfs_visit_def Let_def split: option.splits)
  have neighbors_of_absent: "neighbors_of adj node = []" if "node \<notin> ?keys"
    using that by (simp add: neighbors_of_def map_of_eq_None_iff [THEN iffD2])
  show "((adj, edgeMap, map (\<lambda>neighbor. (neighbor, Some node)) (neighbors_of adj node) @ todo,
          dfs_visit edgeMap node prevNode st),
         (adj, edgeMap, (node, prevNode) # todo, st))
        \<in> inv_image (less_than <*lex*> less_than)
            (\<lambda>(adj, edgeMap, todo, st). (card (fst ` set adj - visited st), length todo))"
  proof (cases "node \<in> ?keys")
    case True
    have fin: "finite (?keys - visited st)" by simp
    have mem: "node \<in> ?keys - visited st" using True new by simp
    have "?keys - insert node (visited st) = (?keys - visited st) - {node}" by auto
    then have "card (?keys - insert node (visited st)) < card (?keys - visited st)"
      using card_Diff1_less [OF fin mem] by simp
    then show ?thesis by (simp add: visited_dfs_visit)
  next
    case False
    then have "?keys - insert node (visited st) = ?keys - visited st" by auto
    then show ?thesis
      using False by (simp add: visited_dfs_visit neighbors_of_absent)
  qed
qed


text \<open>
  The closure as the source writes it, a recursive call inside the loop over the
  neighbours, with a bound on the depth of the calls: \<open>None\<close> is a call that would go
  deeper than the bound.
\<close>

fun dfs_rec ::
  "nat \<Rightarrow> (string \<times> string list) list \<Rightarrow> (string \<rightharpoonup> RMPEdge) \<Rightarrow> string \<Rightarrow> string option \<Rightarrow>
   DfsState \<Rightarrow> DfsState option"
and dfs_loop ::
  "nat \<Rightarrow> (string \<times> string list) list \<Rightarrow> (string \<rightharpoonup> RMPEdge) \<Rightarrow> string \<Rightarrow> string list \<Rightarrow>
   DfsState \<Rightarrow> DfsState option" where
  "dfs_rec 0 adj edgeMap node prevNode st = None"
| "dfs_rec (Suc depth) adj edgeMap node prevNode st =
     (if node \<in> visited st then Some st
      else dfs_loop depth adj edgeMap node (neighbors_of adj node)
             (dfs_visit edgeMap node prevNode st))"
| "dfs_loop depth adj edgeMap node [] st = Some st"
| "dfs_loop depth adj edgeMap node (neighbor # rest) st =
     (if neighbor \<notin> visited st then
        (case dfs_rec depth adj edgeMap neighbor (Some node) st of
           None \<Rightarrow> None
         | Some st' \<Rightarrow> dfs_loop depth adj edgeMap node rest st')
      else dfs_loop depth adj edgeMap node rest st)"

definition unvisited :: "(string \<times> string list) list \<Rightarrow> DfsState \<Rightarrow> nat" where
  "unvisited adj st = card (fst ` set adj - visited st)"

definition getOrderedStationsWithEdges :: "RMPEdge list \<Rightarrow> string list \<times> RMPEdge list" where
  "getOrderedStationsWithEdges edges =
     (if edges = [] then ([], [])
      else
        let built = buildAdjacencyWithEdges edges ([], Map.empty);
            adj = fst built;
            edgeMap = snd built;
            startNode = (case find (\<lambda>(node, neighbors). length neighbors = 1) adj of
                           Some (node, neighbors) \<Rightarrow> node
                         | None \<Rightarrow> edge_source (edges ! 0));
            st = dfs adj edgeMap [(startNode, None)]
                   \<lparr>visited = {}, dfs_nodes = [], dfs_edges = []\<rparr>
        in (dfs_nodes st, dfs_edges st))"

definition flip_startFrom :: "PerpendicularConfig \<Rightarrow> PerpendicularConfig" where
  \<comment> \<open>\<open>{ ...config, startFrom: config.startFrom === 'from' ? 'to' : 'from' }\<close>\<close>
  "flip_startFrom config = config\<lparr>startFrom := (if startFrom config = From then To else From)\<rparr>"

definition calculateEdgePath ::
  "RMPNode \<Rightarrow> RMPNode \<Rightarrow> RMPEdge \<Rightarrow> CoordTransformConfig \<Rightarrow> EdgePath" where
  "calculateEdgePath fromNode toNode edge coordConfig =
     (let from = \<lparr>px = node_x fromNode, py = node_y fromNode\<rparr>;
          to = \<lparr>px = node_x toNode, py = node_y toNode\<rparr>;
          isReversed = (edge_target edge = node_key fromNode);
          edgeType = edge_type edge
      in if edgeType = ''perpendicular'' \<and> perpendicular_config edge \<noteq> None then
           let config = the (perpendicular_config edge);
               adjustedConfig = (if isReversed then flip_startFrom config else config)
           in calculatePerpendicularPath from to adjustedConfig coordConfig
         else if edgeType = ''diagonal'' \<and> diagonal_config edge \<noteq> None then
           let config = the (diagonal_config edge);
               adjustedConfig = (if isReversed then flip_startFrom config else config)
           in calculateDiagonalPath from to adjustedConfig coordConfig
         else if edgeType = ''simple'' \<and> simple_config edge \<noteq> None then
           calculateSimplePath from to (the (simple_config edge)) coordConfig
         else calculateStraightPath from to coordConfig)"

definition digit_char :: "nat \<Rightarrow> char" where
  "digit_char d = ''0123456789'' ! d"

function show_nat :: "nat \<Rightarrow> string" where
  "show_nat n = (if n < 10 then [digit_char n] else show_nat (n div 10) @ [digit_char (n mod 10)])"
  by pat_completeness auto
termination
  by (relation "measure (\<lambda>n. n)") auto

declare show_nat.simps [simp del]

definition line_prefix :: string where
  \<comment> \<open>the two characters of the placeholder name before the number, in UTF-8\<close>
  "line_prefix = [CHR 0xE7, CHR 0xBA, CHR 0xBF, CHR 0xE8, CHR 0xB7, CHR 0xAF]"

definition stationNodesWithIndex ::
  "(string \<rightharpoonup> RMPNode) \<Rightarrow> string list \<Rightarrow> (RMPNode \<times> nat) list" where
  "stationNodesWithIndex nodeMap orderedNodeKeys =
     List.map_filter
       (\<lambda>i. case nodeMap (orderedNodeKeys ! i) of
               Some node \<Rightarrow> if isStationNode node then Some (node, i) else None
             | None \<Rightarrow> None)
       [0..<length orderedNodeKeys]"

definition js_dedupe :: "string list \<Rightarrow> string list" where
  \<comment> \<open>\<open>[...new Set(xs)]\<close>: the first occurrence of every element, in order\<close>
  "js_dedupe xs = rev (remdups (rev xs))"

definition register_station ::
  "string \<Rightarrow> ParsedStation \<Rightarrow> string \<Rightarrow> (string \<times> ParsedStation) list \<Rightarrow>
   (string \<times> ParsedStation) list" where
  "register_station name station lineName allStationsMap =
     (if name \<in> fst ` set allStationsMap then
        map (\<lambda>(k, existing).
               if k = name then
                 (let ls = js_dedupe (st_lines existing @ [lineName])
                  in (k, existing\<lparr>st_lines := ls, isTransfer := (length ls > 1)\<rparr>))
               else (k, existing))
            allStationsMap
      else allStationsMap @ [(name, station)])"

fun station_loop ::
  "CoordTransformConfig \<Rightarrow> string \<Rightarrow> (RMPNode \<times> nat) list \<Rightarrow> nat \<Rightarrow>
   ParsedStation list \<times> (string \<times> ParsedStation) list \<Rightarrow>
   ParsedStation list \<times> (string \<times> ParsedStation) list" where
  "station_loop coordConfig lineName [] i acc = acc"
| "station_loop coordConfig lineName ((node, originalIndex) # rest) i (lineStations, allStationsMap) =
     (case getStationName node of
        None \<Rightarrow> station_loop coordConfig lineName rest (i + 1) (lineStations, allStationsMap)
      | Some name \<Rightarrow>
          if name = [] then
            station_loop coordConfig lineName rest (i + 1) (lineStations, allStationsMap)
          else
            let coord = rmpToGameCoord (node_x node) (node_y node) coordConfig;
                station = \<lparr>st_name = name, st_coord = coord, stationCode = i + 1,
                           isTransfer = isTransferStation node, st_lines = [lineName]\<rparr>
            in station_loop coordConfig lineName rest (i + 1)
                 (lineStations @ [station],
                  register_station name station lineName allStationsMap))"

definition combine_edge ::
  "(string \<rightharpoonup> RMPNode) \<Rightarrow> string list \<Rightarrow> RMPEdge list \<Rightarrow> CoordTransformConfig \<Rightarrow>
   PathSegment list \<times> real \<Rightarrow> nat \<Rightarrow> PathSegment list \<times> real" where
  \<comment> \<open>the body of the loop over \<open>edgeIdx\<close>; an index past the edges reads \<open>undefined\<close>\<close>
  "combine_edge nodeMap orderedNodeKeys orderedEdges coordConfig acc edgeIdx =
     (if edgeIdx < length orderedEdges then
        let edge = orderedEdges ! edgeIdx;
            fromKey = orderedNodeKeys ! edgeIdx;
            toKey = orderedNodeKeys ! (edgeIdx + 1)
        in case (nodeMap fromKey, nodeMap toKey) of
             (Some fromNodeForEdge, Some toNodeForEdge) \<Rightarrow>
               let path = calculateEdgePath fromNodeForEdge toNodeForEdge edge coordConfig
               in (fst acc @ segments path, snd acc + path_length path)
           | _ \<Rightarrow> acc
      else acc)"

definition edgePath_between ::
  "(string \<rightharpoonup> RMPNode) \<Rightarrow> string list \<Rightarrow> RMPEdge list \<Rightarrow> CoordTransformConfig \<Rightarrow>
   RMPNode \<times> nat \<Rightarrow> RMPNode \<times> nat \<Rightarrow> EdgePath" where
  "edgePath_between nodeMap orderedNodeKeys orderedEdges coordConfig fromEntry toEntry =
     (let fromNode = fst fromEntry; fromIdx = snd fromEntry;
          toNode = fst toEntry; toIdx = snd toEntry;
          combined = foldl (combine_edge nodeMap orderedNodeKeys orderedEdges coordConfig)
                       ([], 0) [fromIdx..<toIdx]
      in if fst combined = [] then
           calculateStraightPath \<lparr>px = node_x fromNode, py = node_y fromNode\<rparr>
             \<lparr>px = node_x toNode, py = node_y toNode\<rparr> coordConfig
         else \<lparr>segments = fst combined, path_length = snd combined\<rparr>)"

definition build_edgePaths ::
  "(string \<rightharpoonup> RMPNode) \<Rightarrow> string list \<Rightarrow> RMPEdge list \<Rightarrow> CoordTransformConfig \<Rightarrow>
   (RMPNode \<times> nat) list \<Rightarrow> EdgePath list" where
  "build_edgePaths nodeMap orderedNodeKeys orderedEdges coordConfig stationNodes =
     map (\<lambda>i. edgePath_between nodeMap orderedNodeKeys orderedEdges coordConfig
                 (stationNodes ! i) (stationNodes ! (i + 1)))
         [0..<length stationNodes - 1]"

record BuildState =
  built_lines :: "ParsedLine list"
  allStationsMap :: "(string \<times> ParsedStation) list"
  lineIndex :: nat

definition build_line ::
  "(string \<rightharpoonup> RMPNode) \<Rightarrow> (string \<rightharpoonup> string) \<Rightarrow> CoordTransformConfig \<Rightarrow>
   BuildState \<Rightarrow> string \<times> RMPEdge list \<Rightarrow> BuildState" where
  \<comment> \<open>the body of the loop over \<open>linesByColor\<close>\<close>
  "build_line nodeMap lineBadges coordConfig st entry =
     (let color = fst entry;
          colorEdges = snd entry;
          ordered = getOrderedStationsWithEdges colorEdges;
          orderedNodeKeys = fst ordered;
          orderedEdges = snd ordered;
          stationNodes = stationNodesWithIndex nodeMap orderedNodeKeys
      in if length stationNodes < 2 then st
         else
           let placeholder = line_prefix @ show_nat (lineIndex st);
               lineName = (case lineBadges color of
                             Some badgeName \<Rightarrow> if badgeName = [] then placeholder else badgeName
                           | None \<Rightarrow> placeholder);
               lineId = ''RMP-'' @ show_nat (lineIndex st);
               looped = station_loop coordConfig lineName stationNodes 0
                          ([], allStationsMap st);
               lineStations = fst looped;
               st = st\<lparr>allStationsMap := snd looped\<rparr>
           in if length lineStations \<ge> 2 then
                let edgePaths = build_edgePaths nodeMap orderedNodeKeys orderedEdges coordConfig
                                  stationNodes
                in st\<lparr>built_lines := built_lines st @
                         [\<lparr>bureau = ''RMP'', line_name = lineName, lineId = lineId,
                           line_stations = lineStations, line_color = color,
                           edgePaths = edgePaths\<rparr>],
                       lineIndex := lineIndex st + 1\<rparr>
              else st)"

definition update_station :: "(string \<times> ParsedStation) list \<Rightarrow> ParsedStation \<Rightarrow> ParsedStation" where
  \<comment> \<open>the body of the last loop, on one station of one line\<close>
  "update_station allStations station =
     (case map_of allStations (st_name station) of
        Some globalStation \<Rightarrow>
          station\<lparr>isTransfer := isTransfer globalStation, st_lines := st_lines globalStation\<rparr>
      | None \<Rightarrow> station)"

definition parseRMPData :: "RMPData \<Rightarrow> string \<Rightarrow> ParseResult" where
  "parseRMPData data worldId =
     (let nodes = graph_nodes data;
          edges = graph_edges data;
          coordConfig = coordConfig_of worldId;
          nodeMap = build_nodeMap nodes Map.empty;
          lineBadges = getLineBadges nodes Map.empty;
          linesByColor = group_by_color edges [];
          st = foldl (build_line nodeMap lineBadges coordConfig)
                 \<lparr>built_lines = [], allStationsMap = [], lineIndex = 1\<rparr> linesByColor;
          lines = map (\<lambda>line. line\<lparr>line_stations :=
                          map (update_station (allStationsMap st)) (line_stations line)\<rparr>)
                      (built_lines st)
      in \<lparr>parsed_lines = lines, parsed_stations = map snd (allStationsMap st)\<rparr>)"

subsection \<open>Invariants of the build\<close>

text \<open>
  What the parser keeps true of every entry of the table of all stations: it is filed
  under its own name, its line set is not empty, its flag is set when its line set has
  more than one entry, and when its flag is set with a single entry, a node of an
  interchange type carries its name.
\<close>

definition entry_ok :: "RMPNode set \<Rightarrow> string \<times> ParsedStation \<Rightarrow> bool" where
  "entry_ok N e =
     (st_name (snd e) = fst e
      \<and> st_lines (snd e) \<noteq> []
      \<and> (length (st_lines (snd e)) > 1 \<longrightarrow> isTransfer (snd e))
      \<and> (isTransfer (snd e) \<longrightarrow>
            length (st_lines (snd e)) > 1
            \<or> (\<exists>n \<in> N. isTransferStation n \<and> getStationName n = Some (fst e))))"

definition table_ok :: "RMPNode set \<Rightarrow> (string \<times> ParsedStation) list \<Rightarrow> bool" where
  "table_ok N tab = (distinct (map fst tab) \<and> (\<forall>e \<in> set tab. entry_ok N e))"

definition merged :: "string \<Rightarrow> ParsedStation \<Rightarrow> ParsedStation" where
  "merged lineName existing =
     existing\<lparr>st_lines := js_dedupe (st_lines existing @ [lineName]),
              isTransfer := (length (js_dedupe (st_lines existing @ [lineName])) > 1)\<rparr>"

text \<open>A line name that a name's entry holds stays in it, whatever is registered later.\<close>

definition holds_line :: "(string \<times> ParsedStation) list \<Rightarrow> string \<Rightarrow> string \<Rightarrow> bool" where
  "holds_line tab name lineName =
     (\<exists>g. map_of tab name = Some g \<and> lineName \<in> set (st_lines g))"

definition line_ok :: "(string \<times> ParsedStation) list \<Rightarrow> ParsedLine \<Rightarrow> bool" where
  "line_ok tab l =
     (2 \<le> length (line_stations l)
      \<and> length (line_stations l) \<le> length (edgePaths l) + 1
      \<and> (\<forall>s \<in> set (line_stations l). holds_line tab (st_name s) (line_name l)))"

definition build_ok :: "RMPNode set \<Rightarrow> BuildState \<Rightarrow> bool" where
  "build_ok N st =
     (table_ok N (allStationsMap st) \<and> (\<forall>l \<in> set (built_lines st). line_ok (allStationsMap st) l))"

definition final_state :: "RMPData \<Rightarrow> string \<Rightarrow> BuildState" where
  "final_state data worldId =
     foldl (build_line (build_nodeMap (graph_nodes data) Map.empty)
              (getLineBadges (graph_nodes data) Map.empty) (coordConfig_of worldId))
       \<lparr>built_lines = [], allStationsMap = [], lineIndex = 1\<rparr>
       (group_by_color (graph_edges data) [])"

subsection \<open>Example graphs\<close>

text \<open>
  Three small graphs on which the parser is run below: a line whose middle station node
  has the empty name, a single line that starts at a node of an interchange type, and two
  lines of different colours that both have a station of the name X.
\<close>

definition basic_node :: "string \<Rightarrow> real \<Rightarrow> string list \<Rightarrow> RMPNode" where
  "basic_node k x names =
     \<lparr>node_key = k, node_x = x, node_y = 0, node_type = ''bjsubway-basic'',
      bjsubway_int = None, bjsubway_basic = Some names, suzhourt_basic = None,
      shmetro_int = None, line_badge = None\<rparr>"

definition int_node :: "string \<Rightarrow> real \<Rightarrow> string list \<Rightarrow> RMPNode" where
  "int_node k x names =
     \<lparr>node_key = k, node_x = x, node_y = 0, node_type = ''bjsubway-int'',
      bjsubway_int = Some names, bjsubway_basic = None, suzhourt_basic = None,
      shmetro_int = None, line_badge = None\<rparr>"

definition plain_edge :: "string \<Rightarrow> string \<Rightarrow> string \<Rightarrow> RMPEdge" where
  "plain_edge k s t =
     \<lparr>edge_key = k, edge_source = s, edge_target = t, edge_visible = True,
      edge_type = ''simple'', single_color = None, perpendicular_config = None,
      diagonal_config = None, simple_config = None\<rparr>"

definition nameless_graph :: RMPData where
  "nameless_graph =
     \<lparr>graph_nodes = [basic_node ''a'' 0 [''A''], basic_node ''b'' 10 [[]], basic_node ''c'' 20 [''C'']],
      graph_edges = [plain_edge ''e1'' ''a'' ''b'', plain_edge ''e2'' ''b'' ''c'']\<rparr>"

definition coloured_edge :: "string \<Rightarrow> string \<Rightarrow> string \<Rightarrow> string \<Rightarrow> RMPEdge" where
  "coloured_edge k s t c = (plain_edge k s t)\<lparr>single_color := Some [''shanghai'', ''sh1'', c]\<rparr>"

definition single_line_graph :: RMPData where
  "single_line_graph =
     \<lparr>graph_nodes = [int_node ''a'' 0 [''A''], basic_node ''b'' 10 [''B'']],
      graph_edges = [plain_edge ''e1'' ''a'' ''b'']\<rparr>"

definition transfer_graph :: RMPData where
  "transfer_graph =
     \<lparr>graph_nodes = [basic_node ''a'' 0 [''X''], basic_node ''b'' 10 [''B''],
                     basic_node ''c'' 0 [''X''], basic_node ''d'' 20 [''D'']],
      graph_edges = [coloured_edge ''e1'' ''a'' ''b'' ''#ff0000'',
                     coloured_edge ''e2'' ''c'' ''d'' ''#0000ff'']\<rparr>"

section \<open>Theorems\<close>

subsection \<open>Coordinate transform\<close>

text \<open>
  C3. For every configuration and every diagram point, both copies of the coordinate
  transform (the parser's and the path calculator's) return
  \<open>worldX = (x * scale + offset) * multiplier\<close> and
  \<open>worldZ = (y * scale + offset) * multiplier\<close>, within the tolerance \<open>1e-9\<close> (here:
  exactly), the diagram's y axis becoming the world's z axis, and the elevation is the
  constant 64.
\<close>

theorem C3_coord_transform:
  "cx (rmpToGameCoord x y c) = (x * scale c + offset c) * multiplier c
   \<and> cz (rmpToGameCoord x y c) = (y * scale c + offset c) * multiplier c
   \<and> cy (rmpToGameCoord x y c) = 64
   \<and> \<bar>cx (rmpToGameCoord x y c) - (x * scale c + offset c) * multiplier c\<bar> \<le> 1 / 10 ^ 9
   \<and> \<bar>cz (rmpToGameCoord x y c) - (y * scale c + offset c) * multiplier c\<bar> \<le> 1 / 10 ^ 9
   \<and> toGameCoord \<lparr>px = x, py = y\<rparr> c = rmpToGameCoord x y c"
  by (simp add: rmpToGameCoord_def toGameCoord_def)

subsection \<open>Projection on a segment\<close>

lemma closestPointOnSegment_checked_eq:
  "closestPointOnSegment_checked p a b = Some (closestPointOnSegment p a b)"
  by (simp add: closestPointOnSegment_checked_def closestPointOnSegment_def js_div_def Let_def)

lemma clamp01_range: "0 \<le> clamp01 n \<and> clamp01 n \<le> 1"
  by (simp add: clamp01_def)

lemma quad_min:
  fixes D n s t0 :: real
  assumes D: "0 < D" and s: "0 \<le> s" "s \<le> 1"
  shows "0 \<le> (s - clamp01 (n / D)) * (D * (s + clamp01 (n / D)) - 2 * n)"
proof -
  consider (lo) "n / D < 0" | (hi) "n / D > 1" | (mid) "0 \<le> n / D" "n / D \<le> 1" by linarith
  then show ?thesis
  proof cases
    case lo
    then have n: "n < 0" using D by (simp add: divide_less_0_iff)
    have "0 \<le> D * s" using D s by simp
    then have "0 \<le> D * s - 2 * n" using n by linarith
    then have "0 \<le> s * (D * s - 2 * n)"
      using s by (intro mult_nonneg_nonneg) auto
    with lo show ?thesis by (simp add: clamp01_def)
  next
    case hi
    then have n: "D < n" using D by (simp add: pos_less_divide_eq)
    have "D * (s + 1) \<le> D * 2" using s D by (intro mult_left_mono) auto
    then have "D * (s + 1) - 2 * n \<le> 0" using n by linarith
    then have "0 \<le> (s - 1) * (D * (s + 1) - 2 * n)"
      using s by (intro mult_nonpos_nonpos) auto
    with hi show ?thesis by (simp add: clamp01_def)
  next
    case mid
    have "(s - n / D) * (D * (s + n / D) - 2 * n) = D * (s - n / D)\<^sup>2"
      using D by (simp add: field_simps power2_eq_square)
    moreover have "0 \<le> D * (s - n / D)\<^sup>2" using D by simp
    ultimately show ?thesis using mid by (simp add: clamp01_def)
  qed
qed

lemma sq_dist_expand:
  fixes apx apz abx abz s :: real
  shows "(apx - abx * s)\<^sup>2 + (apz - abz * s)\<^sup>2
       = (apx\<^sup>2 + apz\<^sup>2) - 2 * s * (apx * abx + apz * abz) + s\<^sup>2 * (abx * abx + abz * abz)"
  by (simp add: power2_eq_square algebra_simps)

lemma seg_closest:
  fixes apx apz abx abz s :: real
  assumes D: "0 < abx * abx + abz * abz" and s: "0 \<le> s" "s \<le> 1"
  defines "t \<equiv> clamp01 ((apx * abx + apz * abz) / (abx * abx + abz * abz))"
  shows "(apx - abx * t)\<^sup>2 + (apz - abz * t)\<^sup>2 \<le> (apx - abx * s)\<^sup>2 + (apz - abz * s)\<^sup>2"
proof -
  let ?D = "abx * abx + abz * abz" and ?n = "apx * abx + apz * abz"
  have "0 \<le> (s - t) * (?D * (s + t) - 2 * ?n)"
    unfolding t_def by (rule quad_min [OF D s])
  also have "\<dots> = (- 2 * s * ?n + s\<^sup>2 * ?D) - (- 2 * t * ?n + t\<^sup>2 * ?D)"
    by (simp add: power2_eq_square algebra_simps)
  finally show ?thesis
    unfolding sq_dist_expand [of apx abx s] sq_dist_expand [of apx abx t] by linarith
qed


lemma sqrt_square_self: "0 \<le> r \<Longrightarrow> sqrt (r * r) = r"
  by simp

text \<open>
  C5. \<open>closestPointOnSegment p a b\<close> never divides by zero (its checked twin always
  returns a result). The distance it returns is the Euclidean distance from \<open>p\<close> to the
  point it returns. When the squared length of the segment is at most \<open>1e-12\<close> it returns
  \<open>a\<close> itself with \<open>t = 0\<close>. Otherwise \<open>t\<close> is the parameter of the perpendicular
  projection of \<open>p\<close> on the line through \<open>a\<close> and \<open>b\<close>, clamped to \<open>[0, 1]\<close>, the
  point is the point of the segment at \<open>t\<close>, no point of the segment is nearer to \<open>p\<close>,
  and where the clamp changes nothing the point is the foot of the perpendicular.
\<close>

theorem C5_closestPointOnSegment:
  "closestPointOnSegment_checked p a b = Some (closestPointOnSegment p a b)
   \<and> hit_dist (closestPointOnSegment p a b) = euclid p (hit_point (closestPointOnSegment p a b))
   \<and> ((wx b - wx a)\<^sup>2 + (wz b - wz a)\<^sup>2 \<le> 1 / 10 ^ 12 \<longrightarrow>
         hit_point (closestPointOnSegment p a b) = a \<and> hit_t (closestPointOnSegment p a b) = 0)
   \<and> ((wx b - wx a)\<^sup>2 + (wz b - wz a)\<^sup>2 > 1 / 10 ^ 12 \<longrightarrow>
         hit_t (closestPointOnSegment p a b)
           = clamp01 (((wx p - wx a) * (wx b - wx a) + (wz p - wz a) * (wz b - wz a))
                       / ((wx b - wx a)\<^sup>2 + (wz b - wz a)\<^sup>2))
         \<and> 0 \<le> hit_t (closestPointOnSegment p a b) \<and> hit_t (closestPointOnSegment p a b) \<le> 1
         \<and> hit_point (closestPointOnSegment p a b) = seg_at a b (hit_t (closestPointOnSegment p a b))
         \<and> (\<forall>s. 0 \<le> s \<and> s \<le> 1 \<longrightarrow>
                hit_dist (closestPointOnSegment p a b) \<le> euclid p (seg_at a b s))
         \<and> (hit_t (closestPointOnSegment p a b)
               = ((wx p - wx a) * (wx b - wx a) + (wz p - wz a) * (wz b - wz a))
                   / ((wx b - wx a)\<^sup>2 + (wz b - wz a)\<^sup>2) \<longrightarrow>
              (wx p - wx (hit_point (closestPointOnSegment p a b))) * (wx b - wx a)
              + (wz p - wz (hit_point (closestPointOnSegment p a b))) * (wz b - wz a) = 0))"
proof -
  let ?r = "closestPointOnSegment p a b"
  let ?abx = "wx b - wx a" and ?abz = "wz b - wz a"
  let ?apx = "wx p - wx a" and ?apz = "wz p - wz a"
  let ?D = "?abx\<^sup>2 + ?abz\<^sup>2"
  let ?t0 = "(?apx * ?abx + ?apz * ?abz) / ?D"
  have chk: "closestPointOnSegment_checked p a b = Some ?r"
    by (rule closestPointOnSegment_checked_eq)
  have dist: "hit_dist ?r = euclid p (hit_point ?r)"
    by (simp add: closestPointOnSegment_def Let_def hypot_def euclid_def power2_eq_square)
  have degenerate: "hit_point ?r = a \<and> hit_t ?r = 0" if "?D \<le> 1 / 10 ^ 12"
    using that by (simp add: closestPointOnSegment_def Let_def power2_eq_square)
  have regular:
    "hit_t ?r = clamp01 ?t0 \<and> 0 \<le> hit_t ?r \<and> hit_t ?r \<le> 1
     \<and> hit_point ?r = seg_at a b (hit_t ?r)
     \<and> (\<forall>s. 0 \<le> s \<and> s \<le> 1 \<longrightarrow> hit_dist ?r \<le> euclid p (seg_at a b s))
     \<and> (hit_t ?r = ?t0 \<longrightarrow>
          (wx p - wx (hit_point ?r)) * ?abx + (wz p - wz (hit_point ?r)) * ?abz = 0)"
    if big: "?D > 1 / 10 ^ 12"
  proof -
    have pos: "0 < ?D"
    proof -
      have "(0::real) < 1 / 10 ^ 12" by simp
      then show ?thesis using big by (rule less_trans)
    qed
    have D0: "0 < ?abx * ?abx + ?abz * ?abz"
      using pos by (simp only: power2_eq_square)
    have t: "hit_t ?r = clamp01 ?t0"
      using big by (simp add: closestPointOnSegment_def Let_def isFinite_def power2_eq_square)
    have q: "hit_point ?r = seg_at a b (hit_t ?r)"
      using big by (simp add: closestPointOnSegment_def Let_def isFinite_def power2_eq_square seg_at_def)
    have closest: "hit_dist ?r \<le> euclid p (seg_at a b s)" if s: "0 \<le> s" "s \<le> 1" for s
    proof -
      have "(?apx - ?abx * clamp01 ((?apx * ?abx + ?apz * ?abz) / (?abx * ?abx + ?abz * ?abz)))\<^sup>2
            + (?apz - ?abz * clamp01 ((?apx * ?abx + ?apz * ?abz) / (?abx * ?abx + ?abz * ?abz)))\<^sup>2
            \<le> (?apx - ?abx * s)\<^sup>2 + (?apz - ?abz * s)\<^sup>2"
        by (rule seg_closest [OF D0 s])
      then have "(wx p - wx (seg_at a b (hit_t ?r)))\<^sup>2 + (wz p - wz (seg_at a b (hit_t ?r)))\<^sup>2
            \<le> (wx p - wx (seg_at a b s))\<^sup>2 + (wz p - wz (seg_at a b s))\<^sup>2"
        by (simp add: t seg_at_def power2_eq_square algebra_simps)
      then show ?thesis
        unfolding dist euclid_def q [symmetric] by (simp only: real_sqrt_le_iff)
    qed
    have perp: "(wx p - wx (hit_point ?r)) * ?abx + (wz p - wz (hit_point ?r)) * ?abz = 0"
      if eq: "hit_t ?r = ?t0"
    proof -
      have D0': "?D \<noteq> 0" using pos by (metis less_irrefl)
      have "(wx p - wx (hit_point ?r)) * ?abx + (wz p - wz (hit_point ?r)) * ?abz
            = (?apx * ?abx + ?apz * ?abz) - hit_t ?r * ?D"
        by (subst (1 2) q) (simp add: seg_at_def power2_eq_square algebra_simps)
      also have "\<dots> = 0" unfolding eq using D0' by simp
      finally show ?thesis .
    qed
    show ?thesis using t q closest perp clamp01_range [of ?t0] by simp
  qed
  show ?thesis using chk dist degenerate regular by blast
qed

text \<open>
  The theorem at \<open>p = (5, 5)\<close>, \<open>a = (0, 0)\<close>, \<open>b = (10, 0)\<close>, and the degenerate
  segment \<open>a = b = (0, 0)\<close> with \<open>p = (3, 4)\<close>.
\<close>

theorem C5_closestPointOnSegment_witness:
  "(wx \<lparr>wx = 10, wz = 0\<rparr> - wx \<lparr>wx = 0, wz = 0\<rparr>)\<^sup>2 + (wz \<lparr>wx = 10, wz = 0\<rparr> - wz \<lparr>wx = 0, wz = 0\<rparr>)\<^sup>2 > (1 / 10 ^ 12 :: real)
   \<and> closestPointOnSegment \<lparr>wx = 5, wz = 5\<rparr> \<lparr>wx = 0, wz = 0\<rparr> \<lparr>wx = 10, wz = 0\<rparr>
       = \<lparr>hit_point = \<lparr>wx = 5, wz = 0\<rparr>, hit_t = 1 / 2, hit_dist = 5\<rparr>
   \<and> 5 \<le> euclid \<lparr>wx = 5, wz = 5\<rparr> (seg_at \<lparr>wx = 0, wz = 0\<rparr> \<lparr>wx = 10, wz = 0\<rparr> 1)
   \<and> closestPointOnSegment \<lparr>wx = 3, wz = 4\<rparr> \<lparr>wx = 0, wz = 0\<rparr> \<lparr>wx = 0, wz = 0\<rparr>
       = \<lparr>hit_point = \<lparr>wx = 0, wz = 0\<rparr>, hit_t = 0, hit_dist = 5\<rparr>"
proof -
  let ?p = "\<lparr>wx = 5, wz = 5\<rparr>" and ?a = "\<lparr>wx = 0, wz = 0\<rparr>" and ?b = "\<lparr>wx = 10, wz = 0\<rparr>"
  have s25: "sqrt 25 = 5" using sqrt_square_self [of 5] by simp
  have big: "(wx ?b - wx ?a)\<^sup>2 + (wz ?b - wz ?a)\<^sup>2 > (1 / 10 ^ 12 :: real)" by simp
  have r: "closestPointOnSegment ?p ?a ?b = \<lparr>hit_point = \<lparr>wx = 5, wz = 0\<rparr>, hit_t = 1 / 2, hit_dist = 5\<rparr>"
    by (simp add: closestPointOnSegment_def Let_def isFinite_def clamp01_def hypot_def s25)
  have "\<forall>s. 0 \<le> s \<and> s \<le> 1 \<longrightarrow>
          hit_dist (closestPointOnSegment ?p ?a ?b) \<le> euclid ?p (seg_at ?a ?b s)"
    using C5_closestPointOnSegment [of ?p ?a ?b] big by blast
  then have "hit_dist (closestPointOnSegment ?p ?a ?b) \<le> euclid ?p (seg_at ?a ?b 1)"
    by simp
  then have le: "5 \<le> euclid ?p (seg_at ?a ?b 1)" by (simp add: r)
  have d: "closestPointOnSegment \<lparr>wx = 3, wz = 4\<rparr> ?a ?a
       = \<lparr>hit_point = \<lparr>wx = 0, wz = 0\<rparr>, hit_t = 0, hit_dist = 5\<rparr>"
    by (simp add: closestPointOnSegment_def Let_def isFinite_def hypot_def s25)
  show ?thesis using big r le d by simp
qed

subsection \<open>Scanning rings\<close>

declare scan_segments.simps [simp del]
declare scan_rings.simps [simp del]
declare assist_scan_segments.simps [simp del]
declare assist_scan_rings.simps [simp del]

lemma pick_step:
  "(if dist_less (hit_dist (closestPointOnSegment p a b)) (best_dist best)
    then \<lparr>best_point = Some (hit_point (closestPointOnSegment p a b)),
          best_dist = Some (hit_dist (closestPointOnSegment p a b)),
          best_ringIndex = int r, best_segIndex = int i,
          best_t = hit_t (closestPointOnSegment p a b)\<rparr>
    else best) = pick p best (r, i, a, b)"
  by (simp add: pick_def hit_of_def seg_dist_def Let_def)

lemma scan_segments_unfold:
  "i < lastSeg \<Longrightarrow>
   scan_segments p ring r lastSeg i best
   = scan_segments p ring r lastSeg (i + 1)
       (pick p best (r, i, ring ! i, ring ! ((i + 1) mod length ring)))"
  by (subst scan_segments.simps) (simp only: if_True Let_def pick_step)

lemma scan_segments_done:
  "\<not> i < lastSeg \<Longrightarrow> scan_segments p ring r lastSeg i best = best"
  by (subst scan_segments.simps) simp

lemma scan_segments_foldl:
  "scan_segments p ring r lastSeg i best
   = foldl (pick p) best
       (map (\<lambda>i. (r, i, ring ! i, ring ! ((i + 1) mod length ring))) [i..<lastSeg])"
proof (induction "lastSeg - i" arbitrary: i best)
  case 0
  then show ?case by (simp add: scan_segments_done)
next
  case (Suc k)
  then have lt: "i < lastSeg" and k: "k = lastSeg - (i + 1)" by auto
  have upt: "[i..<lastSeg] = i # [i + 1..<lastSeg]"
    using lt by (simp add: upt_conv_Cons)
  show ?case
    unfolding scan_segments_unfold [OF lt] upt Suc.hyps(1) [OF k]
    by simp
qed

lemma scan_segments_ring:
  "2 \<le> length ring \<Longrightarrow>
   scan_segments p ring r (if cl then length ring else length ring - 1) 0 best
   = foldl (pick p) best (map (\<lambda>s. (r, s)) (ring_segments ring cl))"
  by (simp add: scan_segments_foldl ring_segments_def Let_def comp_def)

lemma scan_rings_unfold:
  "r < length (rings geom) \<Longrightarrow>
   scan_rings p geom r best
   = scan_rings p geom (r + 1)
       (foldl (pick p) best
          (map (\<lambda>s. (r, s)) (ring_segments (rings geom ! r) (r < length (closed geom) \<and> closed geom ! r))))"
proof (cases "length (rings geom ! r) < 2")
  case True
  assume r: "r < length (rings geom)"
  have "ring_segments (rings geom ! r) (r < length (closed geom) \<and> closed geom ! r) = []"
    using True by (simp add: ring_segments_def)
  then show ?thesis
    using r True by (subst scan_rings.simps) (simp add: Let_def closed_at_def)
next
  case False
  assume r: "r < length (rings geom)"
  from False have two: "2 \<le> length (rings geom ! r)" by simp
  show ?thesis
    using r False
    by (subst scan_rings.simps)
       (simp add: Let_def closed_at_def scan_segments_ring [OF two, symmetric])
qed

lemma scan_rings_done:
  "\<not> r < length (rings geom) \<Longrightarrow> scan_rings p geom r best = best"
  by (subst scan_rings.simps) simp

lemma scan_rings_foldl:
  "scan_rings p geom r best
   = foldl (pick p) best
       (concat (map (\<lambda>r. map (\<lambda>s. (r, s)) (ring_segments (rings geom ! r) (r < length (closed geom) \<and> closed geom ! r)))
                    [r..<length (rings geom)]))"
proof (induction "length (rings geom) - r" arbitrary: r best)
  case 0
  then show ?case by (simp add: scan_rings_done)
next
  case (Suc k)
  then have lt: "r < length (rings geom)" and k: "k = length (rings geom) - (r + 1)" by auto
  have upt: "[r..<length (rings geom)] = r # [r + 1..<length (rings geom)]"
    using lt by (simp add: upt_conv_Cons)
  show ?case
    unfolding scan_rings_unfold [OF lt] upt Suc.hyps(1) [OF k]
    by simp
qed

lemma closestPointOnRings_foldl:
  "closestPointOnRings p geom = foldl (pick p) initial_best (all_segments geom)"
  by (simp add: closestPointOnRings_def scan_rings_foldl all_segments_def)

lemma best_dist_hit_of: "best_dist (hit_of p s) = Some (seg_dist p s)"
  by (cases s) (simp add: hit_of_def seg_dist_def Let_def)

lemma foldl_pick_min:
  "(segs = [] \<and> foldl (pick p) initial_best segs = initial_best)
   \<or> (\<exists>s \<in> set segs. foldl (pick p) initial_best segs = hit_of p s
         \<and> (\<forall>s' \<in> set segs. seg_dist p s \<le> seg_dist p s'))"
proof (induction segs rule: rev_induct)
  case Nil
  show ?case by simp
next
  case (snoc x xs)
  let ?res = "foldl (pick p) initial_best xs"
  from snoc.IH show ?case
  proof (elim disjE conjE bexE)
    assume "xs = []" and "?res = initial_best"
    then have "foldl (pick p) initial_best (xs @ [x]) = hit_of p x"
      by (simp add: pick_def dist_less_def initial_best_def)
    with \<open>xs = []\<close> show ?thesis by simp
  next
    fix s
    assume s: "s \<in> set xs" and res: "?res = hit_of p s"
      and least: "\<forall>s' \<in> set xs. seg_dist p s \<le> seg_dist p s'"
    show ?thesis
    proof (cases "seg_dist p x < seg_dist p s")
      case True
      then have "foldl (pick p) initial_best (xs @ [x]) = hit_of p x"
        by (simp add: res pick_def dist_less_def best_dist_hit_of)
      moreover have "\<forall>s' \<in> set (xs @ [x]). seg_dist p x \<le> seg_dist p s'"
        using True least by fastforce
      ultimately show ?thesis by auto
    next
      case False
      then have "foldl (pick p) initial_best (xs @ [x]) = hit_of p s"
        by (simp add: res pick_def dist_less_def best_dist_hit_of)
      moreover have "\<forall>s' \<in> set (xs @ [x]). seg_dist p s \<le> seg_dist p s'"
        using False least by auto
      ultimately show ?thesis using s by auto
    qed
  qed
qed

lemma ring_segments_mem:
  assumes "(i, a, b) \<in> set (ring_segments ring cl)"
  shows "2 \<le> length ring \<and> i < (if cl then length ring else length ring - 1)
         \<and> a = ring ! i \<and> b = ring ! ((i + 1) mod length ring)"
proof (cases "length ring < 2")
  case True
  with assms show ?thesis by (simp add: ring_segments_def)
next
  case False
  with assms have "(i, a, b) \<in> (\<lambda>i. (i, ring ! i, ring ! ((i + 1) mod length ring)))
                      ` set [0..<(if cl then length ring else length ring - 1)]"
    by (simp add: ring_segments_def Let_def del: set_upt)
  then show ?thesis using False by (cases cl) auto
qed

lemma all_segments_mem:
  assumes "(r, i, a, b) \<in> set (all_segments geom)"
  shows "r < length (rings geom) \<and> 2 \<le> length (rings geom ! r)
         \<and> i < (if r < length (closed geom) \<and> closed geom ! r then length (rings geom ! r) else length (rings geom ! r) - 1)
         \<and> a = rings geom ! r ! i
         \<and> b = rings geom ! r ! ((i + 1) mod length (rings geom ! r))"
proof -
  from assms have r: "r < length (rings geom)"
    and m: "(i, a, b) \<in> set (ring_segments (rings geom ! r) (r < length (closed geom) \<and> closed geom ! r))"
    by (auto simp: all_segments_def)
  show ?thesis using r ring_segments_mem [OF m] by simp
qed

lemma ring_segments_length:
  assumes two: "2 \<le> length ring"
  shows "length (ring_segments ring False) = length ring - 1
   \<and> length (ring_segments ring True) = length ring
   \<and> last (ring_segments ring True) = (length ring - 1, ring ! (length ring - 1), ring ! 0)"
proof -
  have pos: "0 < length ring" using two by linarith
  have ne: "[0..<length ring] \<noteq> []" using pos by simp
  have l: "last [0..<length ring] = length ring - 1"
    using last_upt [OF pos] by simp
  have n: "Suc (length ring - 1) = length ring" using two by simp
  have "last (ring_segments ring True)
        = (length ring - 1, ring ! (length ring - 1), ring ! ((length ring - 1 + 1) mod length ring))"
    using two by (simp add: ring_segments_def Let_def last_map [OF ne] l del: upt_Suc)
  also have "(length ring - 1 + 1) mod length ring = 0" using n by simp
  finally show ?thesis using two by (simp add: ring_segments_def Let_def)
qed

lemma foldl_pick_cases:
  "(all_segments geom = [] \<and> closestPointOnRings p geom = initial_best)
   \<or> (\<exists>s \<in> set (all_segments geom). closestPointOnRings p geom = hit_of p s
         \<and> (\<forall>s' \<in> set (all_segments geom). seg_dist p s \<le> seg_dist p s'))"
  unfolding closestPointOnRings_foldl by (rule foldl_pick_min)

lemma example_segments:
  "all_segments \<lparr>rings = [[\<lparr>wx = 0, wz = 0\<rparr>, \<lparr>wx = 10, wz = 0\<rparr>]], closed = [False]\<rparr>
   = [(0, 0, \<lparr>wx = 0, wz = 0\<rparr>, \<lparr>wx = 10, wz = 0\<rparr>)]"
  by (simp add: all_segments_def ring_segments_def Let_def)

lemma example_projection:
  "0 \<le> h \<Longrightarrow>
   closestPointOnSegment \<lparr>wx = 5, wz = h\<rparr> \<lparr>wx = 0, wz = 0\<rparr> \<lparr>wx = 10, wz = 0\<rparr>
   = \<lparr>hit_point = \<lparr>wx = 5, wz = 0\<rparr>, hit_t = 1 / 2, hit_dist = h\<rparr>"
  by (simp add: closestPointOnSegment_def Let_def isFinite_def clamp01_def hypot_def)

lemma example_rings:
  "0 \<le> h \<Longrightarrow>
   closestPointOnRings \<lparr>wx = 5, wz = h\<rparr>
     \<lparr>rings = [[\<lparr>wx = 0, wz = 0\<rparr>, \<lparr>wx = 10, wz = 0\<rparr>]], closed = [False]\<rparr>
   = \<lparr>best_point = Some \<lparr>wx = 5, wz = 0\<rparr>, best_dist = Some h,
      best_ringIndex = 0, best_segIndex = 0, best_t = 1 / 2\<rparr>"
  by (simp add: closestPointOnRings_foldl example_segments pick_def hit_of_def seg_dist_def
      dist_less_def initial_best_def example_projection Let_def)

lemma ring_segments_intro:
  assumes two: "2 \<le> length ring"
    and i: "i < (if cl then length ring else length ring - 1)"
  shows "(i, ring ! i, ring ! ((i + 1) mod length ring)) \<in> set (ring_segments ring cl)"
proof -
  have n: "\<not> length ring < 2" using two by simp
  have s: "ring_segments ring cl
      = map (\<lambda>i. (i, ring ! i, ring ! ((i + 1) mod length ring)))
            [0..<(if cl then length ring else length ring - 1)]"
    unfolding ring_segments_def Let_def using n by (simp only: if_False)
  have "i \<in> set [0..<(if cl then length ring else length ring - 1)]"
    using i by (simp only: set_upt atLeastLessThan_iff) simp
  then show ?thesis unfolding s set_map by (rule imageI)
qed

lemma all_segments_intro:
  assumes r: "r < length (rings geom)"
    and m: "s \<in> set (ring_segments (rings geom ! r) (r < length (closed geom) \<and> closed geom ! r))"
  shows "(r, s) \<in> set (all_segments geom)"
proof -
  let ?f = "\<lambda>r. map (\<lambda>s. (r, s))
              (ring_segments (rings geom ! r) (r < length (closed geom) \<and> closed geom ! r))"
  have a: "(r, s) \<in> set (?f r)" using m by simp
  have b: "r \<in> set [0..<length (rings geom)]" using r by simp
  have "(r, s) \<in> (\<Union>x \<in> set [0..<length (rings geom)]. set (?f x))"
    using a b by (rule UN_I [rotated])
  then show ?thesis unfolding all_segments_def set_concat set_map by simp
qed

lemma all_segments_iff:
  "(r, i, a, b) \<in> set (all_segments geom) \<longleftrightarrow>
     r < length (rings geom) \<and> 2 \<le> length (rings geom ! r)
     \<and> i < (if r < length (closed geom) \<and> closed geom ! r then length (rings geom ! r)
            else length (rings geom ! r) - 1)
     \<and> a = rings geom ! r ! i
     \<and> b = rings geom ! r ! ((i + 1) mod length (rings geom ! r))"
proof
  assume "(r, i, a, b) \<in> set (all_segments geom)"
  then show "r < length (rings geom) \<and> 2 \<le> length (rings geom ! r)
     \<and> i < (if r < length (closed geom) \<and> closed geom ! r then length (rings geom ! r)
            else length (rings geom ! r) - 1)
     \<and> a = rings geom ! r ! i
     \<and> b = rings geom ! r ! ((i + 1) mod length (rings geom ! r))"
    by (rule all_segments_mem)
next
  assume h: "r < length (rings geom) \<and> 2 \<le> length (rings geom ! r)
     \<and> i < (if r < length (closed geom) \<and> closed geom ! r then length (rings geom ! r)
            else length (rings geom ! r) - 1)
     \<and> a = rings geom ! r ! i
     \<and> b = rings geom ! r ! ((i + 1) mod length (rings geom ! r))"
  from h have r: "r < length (rings geom)" by (rule conjunct1)
  from h have two: "2 \<le> length (rings geom ! r)" by (rule conjunct1 [OF conjunct2])
  from h have i: "i < (if r < length (closed geom) \<and> closed geom ! r then length (rings geom ! r)
            else length (rings geom ! r) - 1)" by (rule conjunct1 [OF conjunct2 [OF conjunct2]])
  from h have a: "a = rings geom ! r ! i"
    by (rule conjunct1 [OF conjunct2 [OF conjunct2 [OF conjunct2]]])
  from h have b: "b = rings geom ! r ! ((i + 1) mod length (rings geom ! r))"
    by (rule conjunct2 [OF conjunct2 [OF conjunct2 [OF conjunct2]]])
  show "(r, i, a, b) \<in> set (all_segments geom)"
    unfolding a b by (rule all_segments_intro [OF r ring_segments_intro [OF two i]])
qed

lemma sqrt_25: "sqrt 25 = 5"
  using sqrt_square_self [of 5] by simp

lemma triangle_segments:
  "all_segments \<lparr>rings = [[\<lparr>wx = 0, wz = 0\<rparr>, \<lparr>wx = 10, wz = 0\<rparr>, \<lparr>wx = 10, wz = 10\<rparr>]], closed = [cl]\<rparr>
   = (if cl
      then [(0, 0, \<lparr>wx = 0, wz = 0\<rparr>, \<lparr>wx = 10, wz = 0\<rparr>),
            (0, 1, \<lparr>wx = 10, wz = 0\<rparr>, \<lparr>wx = 10, wz = 10\<rparr>),
            (0, 2, \<lparr>wx = 10, wz = 10\<rparr>, \<lparr>wx = 0, wz = 0\<rparr>)]
      else [(0, 0, \<lparr>wx = 0, wz = 0\<rparr>, \<lparr>wx = 10, wz = 0\<rparr>),
            (0, 1, \<lparr>wx = 10, wz = 0\<rparr>, \<lparr>wx = 10, wz = 10\<rparr>)])"
  by (simp add: all_segments_def ring_segments_def Let_def upt_rec)

lemma triangle_hits:
  "closestPointOnSegment \<lparr>wx = 5, wz = 5\<rparr> \<lparr>wx = 0, wz = 0\<rparr> \<lparr>wx = 10, wz = 0\<rparr>
     = \<lparr>hit_point = \<lparr>wx = 5, wz = 0\<rparr>, hit_t = 1 / 2, hit_dist = 5\<rparr>"
  "closestPointOnSegment \<lparr>wx = 5, wz = 5\<rparr> \<lparr>wx = 10, wz = 0\<rparr> \<lparr>wx = 10, wz = 10\<rparr>
     = \<lparr>hit_point = \<lparr>wx = 10, wz = 5\<rparr>, hit_t = 1 / 2, hit_dist = 5\<rparr>"
  "closestPointOnSegment \<lparr>wx = 5, wz = 5\<rparr> \<lparr>wx = 10, wz = 10\<rparr> \<lparr>wx = 0, wz = 0\<rparr>
     = \<lparr>hit_point = \<lparr>wx = 5, wz = 5\<rparr>, hit_t = 1 / 2, hit_dist = 0\<rparr>"
  by (simp_all add: closestPointOnSegment_def Let_def isFinite_def clamp01_def hypot_def sqrt_25)

lemma triangle_closed:
  "closestPointOnRings \<lparr>wx = 5, wz = 5\<rparr> \<lparr>rings = [[\<lparr>wx = 0, wz = 0\<rparr>, \<lparr>wx = 10, wz = 0\<rparr>, \<lparr>wx = 10, wz = 10\<rparr>]], closed = [True]\<rparr>
   = \<lparr>best_point = Some \<lparr>wx = 5, wz = 5\<rparr>, best_dist = Some 0,
      best_ringIndex = 0, best_segIndex = 2, best_t = 1 / 2\<rparr>"
  by (simp add: closestPointOnRings_foldl triangle_segments pick_def hit_of_def seg_dist_def
      dist_less_def initial_best_def triangle_hits Let_def)

lemma triangle_open:
  "closestPointOnRings \<lparr>wx = 5, wz = 5\<rparr> \<lparr>rings = [[\<lparr>wx = 0, wz = 0\<rparr>, \<lparr>wx = 10, wz = 0\<rparr>, \<lparr>wx = 10, wz = 10\<rparr>]], closed = [False]\<rparr>
   = \<lparr>best_point = Some \<lparr>wx = 5, wz = 0\<rparr>, best_dist = Some 5,
      best_ringIndex = 0, best_segIndex = 0, best_t = 1 / 2\<rparr>"
  by (simp add: closestPointOnRings_foldl triangle_segments pick_def hit_of_def seg_dist_def
      dist_less_def initial_best_def triangle_hits Let_def)



subsection \<open>Snapping to a ring target\<close>

lemma all_segments_empty:
  "all_segments geom = [] \<longleftrightarrow>
     (\<forall>r i. \<not> (r < length (rings geom) \<and> 2 \<le> length (rings geom ! r)
        \<and> i < (if r < length (closed geom) \<and> closed geom ! r then length (rings geom ! r)
               else length (rings geom ! r) - 1)))"
proof
  assume e: "all_segments geom = []"
  show "\<forall>r i. \<not> (r < length (rings geom) \<and> 2 \<le> length (rings geom ! r)
        \<and> i < (if r < length (closed geom) \<and> closed geom ! r then length (rings geom ! r)
               else length (rings geom ! r) - 1))"
  proof (intro allI notI)
    fix r i
    assume "r < length (rings geom) \<and> 2 \<le> length (rings geom ! r)
        \<and> i < (if r < length (closed geom) \<and> closed geom ! r then length (rings geom ! r)
               else length (rings geom ! r) - 1)"
    then have "(r, i, rings geom ! r ! i, rings geom ! r ! ((i + 1) mod length (rings geom ! r)))
        \<in> set (all_segments geom)"
      unfolding all_segments_iff by simp
    then show False unfolding e by simp
  qed
next
  assume n: "\<forall>r i. \<not> (r < length (rings geom) \<and> 2 \<le> length (rings geom ! r)
        \<and> i < (if r < length (closed geom) \<and> closed geom ! r then length (rings geom ! r)
               else length (rings geom ! r) - 1))"
  show "all_segments geom = []"
  proof (rule ccontr)
    assume "all_segments geom \<noteq> []"
    then obtain s where s: "s \<in> set (all_segments geom)" by (cases "all_segments geom") auto
    obtain r i a b where "s = (r, i, a, b)" by (cases s) auto
    with s have "(r, i, a, b) \<in> set (all_segments geom)" by simp
    from all_segments_mem [OF this] n show False by blast
  qed
qed

lemma hit_of_fields:
  "best_point (hit_of p (r, i, a, b)) = Some (hit_point (closestPointOnSegment p a b))
   \<and> best_dist (hit_of p (r, i, a, b)) = Some (hit_dist (closestPointOnSegment p a b))
   \<and> best_segIndex (hit_of p (r, i, a, b)) = int i
   \<and> best_ringIndex (hit_of p (r, i, a, b)) = int r"
  by (simp add: hit_of_def Let_def)

lemma nearest_segment:
  assumes "\<exists>r i. r < length (rings geom) \<and> 2 \<le> length (rings geom ! r)
        \<and> i < (if r < length (closed geom) \<and> closed geom ! r then length (rings geom ! r)
               else length (rings geom ! r) - 1)"
  shows "\<exists>r i. (r < length (rings geom) \<and> 2 \<le> length (rings geom ! r)
        \<and> i < (if r < length (closed geom) \<and> closed geom ! r then length (rings geom ! r)
               else length (rings geom ! r) - 1))
     \<and> (\<forall>r' i'. r' < length (rings geom) \<and> 2 \<le> length (rings geom ! r')
        \<and> i' < (if r' < length (closed geom) \<and> closed geom ! r' then length (rings geom ! r')
               else length (rings geom ! r') - 1) \<longrightarrow>
          hit_dist (closestPointOnSegment p (rings geom ! r ! i)
                      (rings geom ! r ! ((i + 1) mod length (rings geom ! r))))
          \<le> hit_dist (closestPointOnSegment p (rings geom ! r' ! i')
                      (rings geom ! r' ! ((i' + 1) mod length (rings geom ! r')))))
     \<and> closestPointOnRings p geom
       = hit_of p (r, i, rings geom ! r ! i, rings geom ! r ! ((i + 1) mod length (rings geom ! r)))"
proof -
  from assms have "all_segments geom \<noteq> []" using all_segments_empty [of geom] by blast
  with foldl_pick_cases [of geom p]
  obtain s where s: "s \<in> set (all_segments geom)"
    and best: "closestPointOnRings p geom = hit_of p s"
    and least: "\<forall>s' \<in> set (all_segments geom). seg_dist p s \<le> seg_dist p s'"
    by blast
  obtain r i a b where sv: "s = (r, i, a, b)" by (cases s) auto
  have m: "(r, i, a, b) \<in> set (all_segments geom)" using s sv by simp
  note c = all_segments_mem [OF m]
  have a: "a = rings geom ! r ! i" using c by simp
  have b: "b = rings geom ! r ! ((i + 1) mod length (rings geom ! r))" using c by simp
  have l: "hit_dist (closestPointOnSegment p (rings geom ! r ! i)
                      (rings geom ! r ! ((i + 1) mod length (rings geom ! r))))
          \<le> hit_dist (closestPointOnSegment p (rings geom ! r' ! i')
                      (rings geom ! r' ! ((i' + 1) mod length (rings geom ! r'))))"
    if h: "r' < length (rings geom) \<and> 2 \<le> length (rings geom ! r')
        \<and> i' < (if r' < length (closed geom) \<and> closed geom ! r' then length (rings geom ! r')
               else length (rings geom ! r') - 1)" for r' i'
  proof -
    have "(r', i', rings geom ! r' ! i', rings geom ! r' ! ((i' + 1) mod length (rings geom ! r')))
        \<in> set (all_segments geom)"
      unfolding all_segments_iff using h by simp
    from least [rule_format, OF this] show ?thesis
      unfolding sv a b by (simp add: seg_dist_def)
  qed
  have k: "r < length (rings geom) \<and> 2 \<le> length (rings geom ! r)
        \<and> i < (if r < length (closed geom) \<and> closed geom ! r then length (rings geom ! r)
               else length (rings geom ! r) - 1)" using c by simp
  have e: "closestPointOnRings p geom
       = hit_of p (r, i, rings geom ! r ! i, rings geom ! r ! ((i + 1) mod length (rings geom ! r)))"
    unfolding best sv a b by (rule refl)
  show ?thesis using k l e by blast
qed

lemma no_segment:
  assumes "\<forall>r i. \<not> (r < length (rings geom) \<and> 2 \<le> length (rings geom ! r)
        \<and> i < (if r < length (closed geom) \<and> closed geom ! r then length (rings geom ! r)
               else length (rings geom ! r) - 1))"
  shows "closestPointOnRings p geom = initial_best"
proof -
  from assms have "all_segments geom = []" using all_segments_empty [of geom] by blast
  then show ?thesis unfolding closestPointOnRings_foldl by simp
qed

lemma sqrt_2500: "sqrt 2500 = 50"
  using sqrt_square_self [of 50] by simp

lemma big_triangle_segments:
  "all_segments \<lparr>rings = [[\<lparr>wx = 0, wz = 0\<rparr>, \<lparr>wx = 100, wz = 0\<rparr>, \<lparr>wx = 100, wz = 100\<rparr>]], closed = [cl]\<rparr>
   = (if cl
      then [(0, 0, \<lparr>wx = 0, wz = 0\<rparr>, \<lparr>wx = 100, wz = 0\<rparr>),
            (0, 1, \<lparr>wx = 100, wz = 0\<rparr>, \<lparr>wx = 100, wz = 100\<rparr>),
            (0, 2, \<lparr>wx = 100, wz = 100\<rparr>, \<lparr>wx = 0, wz = 0\<rparr>)]
      else [(0, 0, \<lparr>wx = 0, wz = 0\<rparr>, \<lparr>wx = 100, wz = 0\<rparr>),
            (0, 1, \<lparr>wx = 100, wz = 0\<rparr>, \<lparr>wx = 100, wz = 100\<rparr>)])"
  by (simp add: all_segments_def ring_segments_def Let_def upt_rec)

lemma big_triangle_hits:
  "closestPointOnSegment \<lparr>wx = 50, wz = 50\<rparr> \<lparr>wx = 0, wz = 0\<rparr> \<lparr>wx = 100, wz = 0\<rparr>
     = \<lparr>hit_point = \<lparr>wx = 50, wz = 0\<rparr>, hit_t = 1 / 2, hit_dist = 50\<rparr>"
  "closestPointOnSegment \<lparr>wx = 50, wz = 50\<rparr> \<lparr>wx = 100, wz = 0\<rparr> \<lparr>wx = 100, wz = 100\<rparr>
     = \<lparr>hit_point = \<lparr>wx = 100, wz = 50\<rparr>, hit_t = 1 / 2, hit_dist = 50\<rparr>"
  "closestPointOnSegment \<lparr>wx = 50, wz = 50\<rparr> \<lparr>wx = 100, wz = 100\<rparr> \<lparr>wx = 0, wz = 0\<rparr>
     = \<lparr>hit_point = \<lparr>wx = 50, wz = 50\<rparr>, hit_t = 1 / 2, hit_dist = 0\<rparr>"
  by (simp_all add: closestPointOnSegment_def Let_def isFinite_def clamp01_def hypot_def sqrt_2500)

lemma big_triangle_closed:
  "applySnap True
     (Some \<lparr>target_label = ''area'',
            target_geom = \<lparr>rings = [[\<lparr>wx = 0, wz = 0\<rparr>, \<lparr>wx = 100, wz = 0\<rparr>, \<lparr>wx = 100, wz = 100\<rparr>]], closed = [True]\<rparr>\<rparr>)
     \<lparr>wx = 50, wz = 50\<rparr>
   = \<lparr>snap_point = Some \<lparr>wx = 50, wz = 50\<rparr>, blocked = False, reason = None\<rparr>"
  by (simp add: applySnap_def closestPointOnRings_foldl big_triangle_segments pick_def hit_of_def
      seg_dist_def dist_less_def initial_best_def big_triangle_hits Let_def SNAP_MAX_DIST_def)

lemma big_triangle_open:
  "applySnap True
     (Some \<lparr>target_label = ''line'',
            target_geom = \<lparr>rings = [[\<lparr>wx = 0, wz = 0\<rparr>, \<lparr>wx = 100, wz = 0\<rparr>, \<lparr>wx = 100, wz = 100\<rparr>]], closed = [False]\<rparr>\<rparr>)
     \<lparr>wx = 50, wz = 50\<rparr>
   = \<lparr>snap_point = None, blocked = True, reason = Some reason_miss\<rparr>"
  by (simp add: applySnap_def closestPointOnRings_foldl big_triangle_segments pick_def hit_of_def
      seg_dist_def dist_less_def initial_best_def big_triangle_hits Let_def SNAP_MAX_DIST_def)

text \<open>
  C7, as the claim has it, fails on a chosen target without a segment. The target picker
  keeps the rings of at least two points, so a picked feature with fewer projectable
  points gives the target with no ring; a target whose only ring has one point behaves
  the same. The scan then returns no point at distance \<open>Infinity\<close>, which exceeds 20, and
  \<open>applySnap\<close> returns the point \<open>(5, 50)\<close> unchanged and not blocked, also when the only
  point of the target, \<open>(0, 0)\<close>, is more than 50 away.
\<close>

theorem C7_applySnap_counterexample:
  "best_dist (closestPointOnRings \<lparr>wx = 5, wz = 50\<rparr> \<lparr>rings = [], closed = []\<rparr>) = None
   \<and> applySnap True
        (Some \<lparr>target_label = ''line'', target_geom = \<lparr>rings = [], closed = []\<rparr>\<rparr>)
        \<lparr>wx = 5, wz = 50\<rparr>
      = \<lparr>snap_point = Some \<lparr>wx = 5, wz = 50\<rparr>, blocked = False, reason = None\<rparr>
   \<and> best_dist (closestPointOnRings \<lparr>wx = 5, wz = 50\<rparr>
                  \<lparr>rings = [[\<lparr>wx = 0, wz = 0\<rparr>]], closed = [False]\<rparr>) = None
   \<and> applySnap True
        (Some \<lparr>target_label = ''line'',
               target_geom = \<lparr>rings = [[\<lparr>wx = 0, wz = 0\<rparr>]], closed = [False]\<rparr>\<rparr>)
        \<lparr>wx = 5, wz = 50\<rparr>
      = \<lparr>snap_point = Some \<lparr>wx = 5, wz = 50\<rparr>, blocked = False, reason = None\<rparr>"
  by (simp add: applySnap_def closestPointOnRings_foldl all_segments_def ring_segments_def
      initial_best_def Let_def)

text \<open>
  C7, amended. Take an enabled snap with a chosen target. The segments of the target are
  the segments \<open>i\<close> of its rings \<open>r\<close> of \<open>n \<ge> 2\<close> points, from point \<open>i\<close> to point
  \<open>(i + 1) mod n\<close>, with \<open>i < n - 1\<close> for an open ring and \<open>i < n\<close> for a ring whose
  \<open>closed[r]\<close> is true. If the target has no segment, the scan finds no point (its distance
  stays \<open>Infinity\<close>) and the point is returned unchanged, not blocked. If it has one, let
  \<open>d\<close> be the least distance from the point to a segment of the target: if \<open>d\<close> exceeds the
  threshold of 20 the result is a rejection, blocked and with no point; if \<open>d\<close> is at most
  20 the result is not blocked and its point is the projection on a segment at distance
  \<open>d\<close>. On the triangle \<open>[(0,0), (100,0), (100,100)]\<close> the point \<open>(50, 50)\<close> is accepted
  unmoved when the ring is closed, lying on the wrap-around segment, and rejected when
  the ring is open, the two other segments being 50 away.
\<close>

theorem C7_applySnap:
  fixes tgt :: SnapTarget and p :: WorldPoint
  defines "g \<equiv> target_geom tgt"
  defines "seg \<equiv> \<lambda>r i. r < length (rings g) \<and> 2 \<le> length (rings g ! r)
        \<and> i < (if r < length (closed g) \<and> closed g ! r then length (rings g ! r)
               else length (rings g ! r) - 1)"
  defines "proj \<equiv> \<lambda>r i. closestPointOnSegment p (rings g ! r ! i)
                            (rings g ! r ! ((i + 1) mod length (rings g ! r)))"
  shows "((\<forall>r i. \<not> seg r i) \<longrightarrow>
            best_point (closestPointOnRings p g) = None
            \<and> best_dist (closestPointOnRings p g) = None
            \<and> applySnap True (Some tgt) p
              = \<lparr>snap_point = Some p, blocked = False, reason = None\<rparr>)
       \<and> ((\<exists>r i. seg r i) \<longrightarrow>
            (\<exists>r i. seg r i
               \<and> (\<forall>r' i'. seg r' i' \<longrightarrow> hit_dist (proj r i) \<le> hit_dist (proj r' i'))
               \<and> best_dist (closestPointOnRings p g) = Some (hit_dist (proj r i))
               \<and> (hit_dist (proj r i) > SNAP_MAX_DIST \<longrightarrow>
                    applySnap True (Some tgt) p
                    = \<lparr>snap_point = None, blocked = True, reason = Some reason_miss\<rparr>)
               \<and> (hit_dist (proj r i) \<le> SNAP_MAX_DIST \<longrightarrow>
                    applySnap True (Some tgt) p
                    = \<lparr>snap_point = Some (hit_point (proj r i)), blocked = False,
                       reason = None\<rparr>)))
       \<and> SNAP_MAX_DIST = 20
       \<and> applySnap True
            (Some \<lparr>target_label = ''area'',
                   target_geom = \<lparr>rings = [[\<lparr>wx = 0, wz = 0\<rparr>, \<lparr>wx = 100, wz = 0\<rparr>, \<lparr>wx = 100, wz = 100\<rparr>]], closed = [True]\<rparr>\<rparr>)
            \<lparr>wx = 50, wz = 50\<rparr>
          = \<lparr>snap_point = Some \<lparr>wx = 50, wz = 50\<rparr>, blocked = False, reason = None\<rparr>
       \<and> applySnap True
            (Some \<lparr>target_label = ''line'',
                   target_geom = \<lparr>rings = [[\<lparr>wx = 0, wz = 0\<rparr>, \<lparr>wx = 100, wz = 0\<rparr>, \<lparr>wx = 100, wz = 100\<rparr>]], closed = [False]\<rparr>\<rparr>)
            \<lparr>wx = 50, wz = 50\<rparr>
          = \<lparr>snap_point = None, blocked = True, reason = Some reason_miss\<rparr>"
proof -
  have none: "best_point (closestPointOnRings p g) = None
            \<and> best_dist (closestPointOnRings p g) = None
            \<and> applySnap True (Some tgt) p
              = \<lparr>snap_point = Some p, blocked = False, reason = None\<rparr>"
    if h: "\<forall>r i. \<not> seg r i"
  proof -
    have "closestPointOnRings p g = initial_best"
      using h unfolding seg_def by (rule no_segment)
    then show ?thesis by (simp add: applySnap_def g_def initial_best_def Let_def)
  qed
  have some: "\<exists>r i. seg r i
               \<and> (\<forall>r' i'. seg r' i' \<longrightarrow> hit_dist (proj r i) \<le> hit_dist (proj r' i'))
               \<and> best_dist (closestPointOnRings p g) = Some (hit_dist (proj r i))
               \<and> (hit_dist (proj r i) > SNAP_MAX_DIST \<longrightarrow>
                    applySnap True (Some tgt) p
                    = \<lparr>snap_point = None, blocked = True, reason = Some reason_miss\<rparr>)
               \<and> (hit_dist (proj r i) \<le> SNAP_MAX_DIST \<longrightarrow>
                    applySnap True (Some tgt) p
                    = \<lparr>snap_point = Some (hit_point (proj r i)), blocked = False,
                       reason = None\<rparr>)"
    if h: "\<exists>r i. seg r i"
  proof -
    from h have "\<exists>r i. seg r i
        \<and> (\<forall>r' i'. seg r' i' \<longrightarrow> hit_dist (proj r i) \<le> hit_dist (proj r' i'))
        \<and> closestPointOnRings p g
          = hit_of p (r, i, rings g ! r ! i, rings g ! r ! ((i + 1) mod length (rings g ! r)))"
      unfolding seg_def proj_def by (rule nearest_segment)
    then obtain r i where s: "seg r i"
      and least: "\<forall>r' i'. seg r' i' \<longrightarrow> hit_dist (proj r i) \<le> hit_dist (proj r' i')"
      and best: "closestPointOnRings p g
          = hit_of p (r, i, rings g ! r ! i, rings g ! r ! ((i + 1) mod length (rings g ! r)))"
      by blast
    have bd: "best_dist (closestPointOnRings p g) = Some (hit_dist (proj r i))"
      unfolding best proj_def by (simp add: hit_of_fields)
    have bp: "best_point (closestPointOnRings p g) = Some (hit_point (proj r i))"
      unfolding best proj_def by (simp add: hit_of_fields)
    have far: "applySnap True (Some tgt) p
           = \<lparr>snap_point = None, blocked = True, reason = Some reason_miss\<rparr>"
      if "hit_dist (proj r i) > SNAP_MAX_DIST"
      using that bd bp by (simp add: applySnap_def g_def [symmetric] Let_def)
    have near: "applySnap True (Some tgt) p
           = \<lparr>snap_point = Some (hit_point (proj r i)), blocked = False, reason = None\<rparr>"
      if "hit_dist (proj r i) \<le> SNAP_MAX_DIST"
      using that bd bp by (simp add: applySnap_def g_def [symmetric] Let_def)
    show ?thesis using s least bd far near by blast
  qed
  have t: "SNAP_MAX_DIST = 20" by (simp add: SNAP_MAX_DIST_def)
  show ?thesis
    apply (rule conjI)
     apply (rule impI, rule none, assumption)
    apply (rule conjI)
     apply (rule impI, rule some, assumption)
    apply (rule conjI, rule t)
    apply (rule conjI, rule big_triangle_closed)
    apply (rule big_triangle_open)
    done
qed

text \<open>
  The theorem on the ring \<open>[(0,0), (10,0)]\<close>, whose one segment is segment 0 of ring 0:
  the point \<open>(5, 20.001)\<close>, at distance \<open>20 + 0.001\<close>, is rejected, and the point
  \<open>(5, 19.999)\<close>, at distance \<open>20 - 0.001\<close>, is accepted and moved to \<open>(5, 0)\<close>. On the
  target without a ring the point \<open>(1, 2)\<close> passes unchanged.
\<close>

theorem C7_applySnap_witness:
  "(0 < length (rings \<lparr>rings = [[\<lparr>wx = 0, wz = 0\<rparr>, \<lparr>wx = 10, wz = 0\<rparr>]], closed = [False]\<rparr>)
    \<and> 2 \<le> length (rings \<lparr>rings = [[\<lparr>wx = 0, wz = 0\<rparr>, \<lparr>wx = 10, wz = 0\<rparr>]], closed = [False]\<rparr> ! 0))
   \<and> hit_dist (closestPointOnSegment \<lparr>wx = 5, wz = 20.001\<rparr> \<lparr>wx = 0, wz = 0\<rparr> \<lparr>wx = 10, wz = 0\<rparr>)
      = 20.001
   \<and> applySnap True
        (Some \<lparr>target_label = ''line'',
               target_geom = \<lparr>rings = [[\<lparr>wx = 0, wz = 0\<rparr>, \<lparr>wx = 10, wz = 0\<rparr>]], closed = [False]\<rparr>\<rparr>)
        \<lparr>wx = 5, wz = 20.001\<rparr>
      = \<lparr>snap_point = None, blocked = True, reason = Some reason_miss\<rparr>
   \<and> hit_dist (closestPointOnSegment \<lparr>wx = 5, wz = 19.999\<rparr> \<lparr>wx = 0, wz = 0\<rparr> \<lparr>wx = 10, wz = 0\<rparr>)
      = 19.999
   \<and> applySnap True
        (Some \<lparr>target_label = ''line'',
               target_geom = \<lparr>rings = [[\<lparr>wx = 0, wz = 0\<rparr>, \<lparr>wx = 10, wz = 0\<rparr>]], closed = [False]\<rparr>\<rparr>)
        \<lparr>wx = 5, wz = 19.999\<rparr>
      = \<lparr>snap_point = Some \<lparr>wx = 5, wz = 0\<rparr>, blocked = False, reason = None\<rparr>
   \<and> applySnap True
        (Some \<lparr>target_label = ''none'', target_geom = \<lparr>rings = [], closed = []\<rparr>\<rparr>)
        \<lparr>wx = 1, wz = 2\<rparr>
      = \<lparr>snap_point = Some \<lparr>wx = 1, wz = 2\<rparr>, blocked = False, reason = None\<rparr>"
proof -
  let ?geom = "\<lparr>rings = [[\<lparr>wx = 0, wz = 0\<rparr>, \<lparr>wx = 10, wz = 0\<rparr>]], closed = [False]\<rparr>"
  let ?tgt = "\<lparr>target_label = ''line'', target_geom = ?geom\<rparr>"
  let ?none = "\<lparr>target_label = ''none'', target_geom = \<lparr>rings = [], closed = []\<rparr>\<rparr>"
  have seg: "(r < length (rings (target_geom ?tgt)) \<and> 2 \<le> length (rings (target_geom ?tgt) ! r)
        \<and> i < (if r < length (closed (target_geom ?tgt)) \<and> closed (target_geom ?tgt) ! r
               then length (rings (target_geom ?tgt) ! r)
               else length (rings (target_geom ?tgt) ! r) - 1)) = (r = 0 \<and> i = 0)" for r i
    by auto
  have far: "applySnap True (Some ?tgt) \<lparr>wx = 5, wz = 20.001\<rparr>
      = \<lparr>snap_point = None, blocked = True, reason = Some reason_miss\<rparr>"
    using C7_applySnap [of ?tgt "\<lparr>wx = 5, wz = 20.001\<rparr>"] unfolding seg
    by (simp add: example_projection SNAP_MAX_DIST_def)
  have near: "applySnap True (Some ?tgt) \<lparr>wx = 5, wz = 19.999\<rparr>
      = \<lparr>snap_point = Some \<lparr>wx = 5, wz = 0\<rparr>, blocked = False, reason = None\<rparr>"
    using C7_applySnap [of ?tgt "\<lparr>wx = 5, wz = 19.999\<rparr>"] unfolding seg
    by (simp add: example_projection SNAP_MAX_DIST_def)
  have pass: "applySnap True (Some ?none) \<lparr>wx = 1, wz = 2\<rparr>
      = \<lparr>snap_point = Some \<lparr>wx = 1, wz = 2\<rparr>, blocked = False, reason = None\<rparr>"
    using C7_applySnap [of ?none "\<lparr>wx = 1, wz = 2\<rparr>"] by simp
  show ?thesis using far near pass by (simp add: example_projection)
qed


subsection \<open>Snapping to a fixed axis line\<close>

text \<open>
  C8. With the assist line enabled and a fixed line \<open>axis = v\<close> as its target, the
  distance is \<open>|p[axis] - v|\<close>. Within the threshold the result is snapped: \<open>p\<close> with
  its coordinate on the fixed axis replaced by \<open>v\<close> and the other one unchanged. Beyond
  the threshold the result is \<open>p\<close> itself, not snapped. The distance is reported in both
  cases.
\<close>

theorem C8_axis_snap:
  "(\<bar>wx p - v\<bar> \<le> threshold \<longrightarrow>
      transformWorldPoint True (Some (FixedLine AxisX v label)) threshold p
      = \<lparr>res_point = p\<lparr>wx := v\<rparr>, snapped = True, res_dist = Some \<bar>wx p - v\<bar>,
         targetLabel = Some label\<rparr>)
   \<and> (\<not> \<bar>wx p - v\<bar> \<le> threshold \<longrightarrow>
      transformWorldPoint True (Some (FixedLine AxisX v label)) threshold p
      = \<lparr>res_point = p, snapped = False, res_dist = Some \<bar>wx p - v\<bar>, targetLabel = Some label\<rparr>)
   \<and> (\<bar>wz p - v\<bar> \<le> threshold \<longrightarrow>
      transformWorldPoint True (Some (FixedLine AxisZ v label)) threshold p
      = \<lparr>res_point = p\<lparr>wz := v\<rparr>, snapped = True, res_dist = Some \<bar>wz p - v\<bar>,
         targetLabel = Some label\<rparr>)
   \<and> (\<not> \<bar>wz p - v\<bar> \<le> threshold \<longrightarrow>
      transformWorldPoint True (Some (FixedLine AxisZ v label)) threshold p
      = \<lparr>res_point = p, snapped = False, res_dist = Some \<bar>wz p - v\<bar>, targetLabel = Some label\<rparr>)"
  by (cases p) (simp add: transformWorldPoint_def Let_def)

text \<open>
  The theorem with axis \<open>x\<close>, value 100 and threshold 20 at the point \<open>(110, 50)\<close>:
  the result is \<open>(100, 50)\<close>, snapped, at distance 10.
\<close>

theorem C8_axis_snap_witness:
  "\<bar>wx \<lparr>wx = 110, wz = 50\<rparr> - 100\<bar> \<le> (20 :: real)
   \<and> transformWorldPoint True (Some (FixedLine AxisX 100 ''x = 100'')) 20 \<lparr>wx = 110, wz = 50\<rparr>
     = \<lparr>res_point = \<lparr>wx = 100, wz = 50\<rparr>, snapped = True, res_dist = Some 10,
        targetLabel = Some ''x = 100''\<rparr>"
  using C8_axis_snap [of "\<lparr>wx = 110, wz = 50\<rparr>" 100 20 "''x = 100''"] by simp

subsection \<open>Inserting a control point\<close>

lemma normalize_geom:
  "rings (normalizeRingsForPolygonLike coords isPolygon)
     = [if length coords \<ge> 2 \<and> samePoint (coords ! 0) (coords ! (length coords - 1))
        then butlast coords else coords]
   \<and> closed (normalizeRingsForPolygonLike coords isPolygon) = [isPolygon]"
  by (simp add: normalizeRingsForPolygonLike_def Let_def)

lemma insertIndex_of_segment:
  assumes "i < (if lmode = ModePolygon then n else n - 1)"
  shows "insertIndex_of lmode (int i) n = i + 1"
  using assms by (auto simp: insertIndex_of_def split: if_splits)

lemma one_ring_segment:
  "(r < length (rings \<lparr>rings = [ring], closed = [cl]\<rparr>)
      \<and> 2 \<le> length (rings \<lparr>rings = [ring], closed = [cl]\<rparr> ! r)
      \<and> i < (if r < length (closed \<lparr>rings = [ring], closed = [cl]\<rparr>)
                  \<and> closed \<lparr>rings = [ring], closed = [cl]\<rparr> ! r
               then length (rings \<lparr>rings = [ring], closed = [cl]\<rparr> ! r)
               else length (rings \<lparr>rings = [ring], closed = [cl]\<rparr> ! r) - 1))
   = (r = 0 \<and> i < (if length ring < 2 then 0 else if cl then length ring else length ring - 1))"
  by auto

lemma insert_on_ring:
  fixes pendingEdits :: "int \<rightharpoonup> WorldPoint list" and w :: WorldPoint
  assumes found: "find (\<lambda>l. layer_id l = target) measuringLayers = Some layer"
    and lmode: "layer_mode layer = ModePolyline \<or> layer_mode layer = ModePolygon"
  defines "coords \<equiv> getEffectiveCoords pendingEdits layer"
  defines "ring \<equiv> if 2 \<le> length coords \<and> samePoint (coords ! 0) (coords ! (length coords - 1))
                   then butlast coords else coords"
  defines "nseg \<equiv> if length ring < 2 then 0
                   else if layer_mode layer = ModePolygon then length ring else length ring - 1"
  defines "proj \<equiv> \<lambda>i. closestPointOnSegment w (ring ! i) (ring ! ((i + 1) mod length ring))"
  defines "result \<equiv> onMapClick_add True (Some target) measuringLayers pendingEdits (Some w)"
  shows "(nseg = 0 \<longrightarrow> result = pendingEdits)
       \<and> (0 < nseg \<longrightarrow>
           (\<exists>i < nseg. (\<forall>j < nseg. hit_dist (proj i) \<le> hit_dist (proj j))
              \<and> best_segIndex (closestPointOnRings w
                    \<lparr>rings = [ring], closed = [layer_mode layer = ModePolygon]\<rparr>) = int i
              \<and> (hit_dist (proj i) > SNAP_MAX_DIST \<longrightarrow> result = pendingEdits)
              \<and> (hit_dist (proj i) \<le> SNAP_MAX_DIST \<longrightarrow>
                   result = pendingEdits(layer_id layer \<mapsto>
                              take (i + 1) ring @ [hit_point (proj i)] @ drop (i + 1) ring)
                   \<and> (i = length ring - 1 \<longrightarrow>
                        result = pendingEdits(layer_id layer \<mapsto>
                                   ring @ [hit_point (proj i)])))))"
proof -
  define geom where "geom = normalizeRingsForPolygonLike coords (layer_mode layer = ModePolygon)"
  have g: "geom = \<lparr>rings = [ring], closed = [layer_mode layer = ModePolygon]\<rparr>"
    unfolding geom_def ring_def using normalize_geom [of coords "layer_mode layer = ModePolygon"]
    by (cases "normalizeRingsForPolygonLike coords (layer_mode layer = ModePolygon)") simp
  have r0: "rings geom ! 0 = ring" by (simp add: g)
  have seg: "(r < length (rings geom) \<and> 2 \<le> length (rings geom ! r)
      \<and> i < (if r < length (closed geom) \<and> closed geom ! r then length (rings geom ! r)
               else length (rings geom ! r) - 1)) = (r = 0 \<and> i < nseg)" for r i
    unfolding g nseg_def by (rule one_ring_segment)
  have not_point:
    "(layer_mode layer \<noteq> ModePolyline \<and> layer_mode layer \<noteq> ModePolygon) = False"
    using lmode by simp
  have unfold: "result =
      (let best = closestPointOnRings w geom
       in case (best_point best, best_dist best) of
            (Some q, Some d) \<Rightarrow>
              if d > SNAP_MAX_DIST then pendingEdits
              else if length ring < 2 then pendingEdits
              else pendingEdits(layer_id layer \<mapsto>
                     splice_insert (insertIndex_of (layer_mode layer) (best_segIndex best)
                                      (length ring)) q ring)
          | _ \<Rightarrow> pendingEdits)"
    by (simp add: result_def onMapClick_add_def found not_point coords_def [symmetric]
        geom_def [symmetric] r0 Let_def split: option.splits)
  have empty: "result = pendingEdits" if "nseg = 0"
  proof -
    have "\<forall>r i. \<not> (r < length (rings geom) \<and> 2 \<le> length (rings geom ! r)
      \<and> i < (if r < length (closed geom) \<and> closed geom ! r then length (rings geom ! r)
               else length (rings geom ! r) - 1))"
      unfolding seg using that by simp
    then have "closestPointOnRings w geom = initial_best" by (rule no_segment)
    then show ?thesis unfolding unfold by (simp add: initial_best_def)
  qed
  have nonempty:
    "\<exists>i < nseg. (\<forall>j < nseg. hit_dist (proj i) \<le> hit_dist (proj j))
        \<and> best_segIndex (closestPointOnRings w
              \<lparr>rings = [ring], closed = [layer_mode layer = ModePolygon]\<rparr>) = int i
        \<and> (hit_dist (proj i) > SNAP_MAX_DIST \<longrightarrow> result = pendingEdits)
        \<and> (hit_dist (proj i) \<le> SNAP_MAX_DIST \<longrightarrow>
             result = pendingEdits(layer_id layer \<mapsto>
                        take (i + 1) ring @ [hit_point (proj i)] @ drop (i + 1) ring)
             \<and> (i = length ring - 1 \<longrightarrow>
                  result = pendingEdits(layer_id layer \<mapsto> ring @ [hit_point (proj i)])))"
    if pos: "0 < nseg"
  proof -
    have "\<exists>r i. r < length (rings geom) \<and> 2 \<le> length (rings geom ! r)
      \<and> i < (if r < length (closed geom) \<and> closed geom ! r then length (rings geom ! r)
               else length (rings geom ! r) - 1)"
      unfolding seg using pos by blast
    from nearest_segment [OF this, of w, unfolded seg]
    obtain r i where ri: "r = 0 \<and> i < nseg"
      and least0: "\<forall>r' i'. r' = 0 \<and> i' < nseg \<longrightarrow>
          hit_dist (closestPointOnSegment w (rings geom ! r ! i)
                      (rings geom ! r ! ((i + 1) mod length (rings geom ! r))))
          \<le> hit_dist (closestPointOnSegment w (rings geom ! r' ! i')
                      (rings geom ! r' ! ((i' + 1) mod length (rings geom ! r'))))"
      and best0: "closestPointOnRings w geom
       = hit_of w (r, i, rings geom ! r ! i, rings geom ! r ! ((i + 1) mod length (rings geom ! r)))"
      by blast
    from ri have i: "i < nseg" and r: "r = 0" by simp_all
    have least: "\<forall>j < nseg. hit_dist (proj i) \<le> hit_dist (proj j)"
    proof (intro allI impI)
      fix j
      assume "j < nseg"
      then show "hit_dist (proj i) \<le> hit_dist (proj j)"
        using least0 [rule_format, of 0 j] unfolding r r0 proj_def by simp
    qed
    have best: "closestPointOnRings w geom = hit_of w (0, i, ring ! i, ring ! ((i + 1) mod length ring))"
      using best0 unfolding r r0 by simp
    have two: "2 \<le> length ring" using pos unfolding nseg_def by (simp split: if_splits)
    have i': "i < (if layer_mode layer = ModePolygon then length ring else length ring - 1)"
      using i two unfolding nseg_def by (simp split: if_splits)
    have idx: "insertIndex_of (layer_mode layer) (int i) (length ring) = i + 1"
      by (rule insertIndex_of_segment [OF i'])
    have not_short: "\<not> length ring < 2" using two by simp
    have far: "result = pendingEdits" if "hit_dist (proj i) > SNAP_MAX_DIST"
      using that unfolding unfold best proj_def by (simp add: hit_of_fields Let_def)
    have near: "result = pendingEdits(layer_id layer \<mapsto>
                        take (i + 1) ring @ [hit_point (proj i)] @ drop (i + 1) ring)"
      if "hit_dist (proj i) \<le> SNAP_MAX_DIST"
    proof -
      have "\<not> hit_dist (proj i) > SNAP_MAX_DIST" using that by simp
      then show ?thesis
        using not_short idx unfolding unfold best proj_def
        by (simp add: hit_of_fields Let_def splice_insert_def)
    qed
    have wrap: "take (i + 1) ring @ [q] @ drop (i + 1) ring = ring @ [q]"
      if "i = length ring - 1" for q
      using that two by simp
    have near_wrap: "result = pendingEdits(layer_id layer \<mapsto> ring @ [hit_point (proj i)])"
      if "hit_dist (proj i) \<le> SNAP_MAX_DIST" and "i = length ring - 1"
      using near [OF that(1)] wrap [OF that(2)] by simp
    have si: "best_segIndex (closestPointOnRings w
              \<lparr>rings = [ring], closed = [layer_mode layer = ModePolygon]\<rparr>) = int i"
      using best unfolding g by (simp add: hit_of_fields)
    show ?thesis using i least si far near near_wrap by blast
  qed
  show ?thesis using empty nonempty by blast
qed

lemma sqrt_36: "sqrt 36 = 6"
  using sqrt_square_self [of 6] by simp

lemma closing_duplicate:
  "normalizeRingsForPolygonLike [\<lparr>wx = 0, wz = 0\<rparr>, \<lparr>wx = 10, wz = 0\<rparr>, \<lparr>wx = 10, wz = 10\<rparr>, \<lparr>wx = 0, wz = 0\<rparr>] isPolygon = \<lparr>rings = [[\<lparr>wx = 0, wz = 0\<rparr>, \<lparr>wx = 10, wz = 0\<rparr>, \<lparr>wx = 10, wz = 10\<rparr>]], closed = [isPolygon]\<rparr>"
  by (simp add: normalizeRingsForPolygonLike_def samePoint_def Let_def)

lemma closing_polygon_best:
  "closestPointOnRings \<lparr>wx = 4, wz = 0\<rparr> \<lparr>rings = [[\<lparr>wx = 0, wz = 0\<rparr>, \<lparr>wx = 10, wz = 0\<rparr>, \<lparr>wx = 10, wz = 10\<rparr>]], closed = [True]\<rparr>
   = \<lparr>best_point = Some \<lparr>wx = 4, wz = 0\<rparr>, best_dist = Some 0,
      best_ringIndex = 0, best_segIndex = 0, best_t = 2 / 5\<rparr>"
  by (simp add: closestPointOnRings_foldl triangle_segments pick_def hit_of_def seg_dist_def
      dist_less_def initial_best_def closestPointOnSegment_def isFinite_def clamp01_def
      hypot_def Let_def)

lemma closing_polyline_best:
  "closestPointOnRings \<lparr>wx = 4, wz = 5\<rparr> \<lparr>rings = [[\<lparr>wx = 0, wz = 0\<rparr>, \<lparr>wx = 10, wz = 0\<rparr>, \<lparr>wx = 10, wz = 10\<rparr>]], closed = [False]\<rparr>
   = \<lparr>best_point = Some \<lparr>wx = 4, wz = 0\<rparr>, best_dist = Some 5,
      best_ringIndex = 0, best_segIndex = 0, best_t = 2 / 5\<rparr>"
  by (simp add: closestPointOnRings_foldl triangle_segments pick_def hit_of_def seg_dist_def
      dist_less_def initial_best_def closestPointOnSegment_def isFinite_def clamp01_def
      hypot_def sqrt_25 sqrt_36 Let_def)

text \<open>
  C9, as the claim has it, fails on a point list that ends with its first point. The
  handler searches and stores the list without that closing point. On the polygon layer
  \<open>[(0,0), (10,0), (10,10), (0,0)]\<close> a click at \<open>(4, 0)\<close>, on segment 0, stores
  \<open>[(0,0), (4,0), (10,0), (10,10)]\<close>, four points for four, where inserting at index 1 of
  the point list gives five. On the polyline layer with the same points a click at
  \<open>(4, 5)\<close> stores the same four points, the projection on segment 0 at distance 5,
  although the closing segment from \<open>(10, 10)\<close> to \<open>(0, 0)\<close>, which is not searched, is less
  than 1 away.
\<close>

theorem C9_insert_counterexample:
  "onMapClick_add True (Some 7) [\<lparr>layer_id = 7, layer_mode = ModePolygon, layer_coords = [\<lparr>wx = 0, wz = 0\<rparr>, \<lparr>wx = 10, wz = 0\<rparr>, \<lparr>wx = 10, wz = 10\<rparr>, \<lparr>wx = 0, wz = 0\<rparr>]\<rparr>] Map.empty (Some \<lparr>wx = 4, wz = 0\<rparr>) 7
     = Some [\<lparr>wx = 0, wz = 0\<rparr>, \<lparr>wx = 4, wz = 0\<rparr>, \<lparr>wx = 10, wz = 0\<rparr>, \<lparr>wx = 10, wz = 10\<rparr>]
   \<and> splice_insert 1 \<lparr>wx = 4, wz = 0\<rparr> [\<lparr>wx = 0, wz = 0\<rparr>, \<lparr>wx = 10, wz = 0\<rparr>, \<lparr>wx = 10, wz = 10\<rparr>, \<lparr>wx = 0, wz = 0\<rparr>]
     = [\<lparr>wx = 0, wz = 0\<rparr>, \<lparr>wx = 4, wz = 0\<rparr>, \<lparr>wx = 10, wz = 0\<rparr>, \<lparr>wx = 10, wz = 10\<rparr>, \<lparr>wx = 0, wz = 0\<rparr>]
   \<and> onMapClick_add True (Some 7) [\<lparr>layer_id = 7, layer_mode = ModePolyline, layer_coords = [\<lparr>wx = 0, wz = 0\<rparr>, \<lparr>wx = 10, wz = 0\<rparr>, \<lparr>wx = 10, wz = 10\<rparr>, \<lparr>wx = 0, wz = 0\<rparr>]\<rparr>] Map.empty (Some \<lparr>wx = 4, wz = 5\<rparr>) 7
     = Some [\<lparr>wx = 0, wz = 0\<rparr>, \<lparr>wx = 4, wz = 0\<rparr>, \<lparr>wx = 10, wz = 0\<rparr>, \<lparr>wx = 10, wz = 10\<rparr>]
   \<and> hit_dist (closestPointOnSegment \<lparr>wx = 4, wz = 5\<rparr> \<lparr>wx = 10, wz = 10\<rparr> \<lparr>wx = 0, wz = 0\<rparr>) < 1"
proof -
  have a: "onMapClick_add True (Some 7) [\<lparr>layer_id = 7, layer_mode = ModePolygon, layer_coords = [\<lparr>wx = 0, wz = 0\<rparr>, \<lparr>wx = 10, wz = 0\<rparr>, \<lparr>wx = 10, wz = 10\<rparr>, \<lparr>wx = 0, wz = 0\<rparr>]\<rparr>] Map.empty (Some \<lparr>wx = 4, wz = 0\<rparr>) 7
     = Some [\<lparr>wx = 0, wz = 0\<rparr>, \<lparr>wx = 4, wz = 0\<rparr>, \<lparr>wx = 10, wz = 0\<rparr>, \<lparr>wx = 10, wz = 10\<rparr>]"
    by (simp add: onMapClick_add_def getEffectiveCoords_def closing_duplicate
        closing_polygon_best insertIndex_of_def splice_insert_def SNAP_MAX_DIST_def Let_def)
  have b: "splice_insert 1 \<lparr>wx = 4, wz = 0\<rparr> [\<lparr>wx = 0, wz = 0\<rparr>, \<lparr>wx = 10, wz = 0\<rparr>, \<lparr>wx = 10, wz = 10\<rparr>, \<lparr>wx = 0, wz = 0\<rparr>]
     = [\<lparr>wx = 0, wz = 0\<rparr>, \<lparr>wx = 4, wz = 0\<rparr>, \<lparr>wx = 10, wz = 0\<rparr>, \<lparr>wx = 10, wz = 10\<rparr>, \<lparr>wx = 0, wz = 0\<rparr>]"
    by (simp add: splice_insert_def)
  have c: "onMapClick_add True (Some 7) [\<lparr>layer_id = 7, layer_mode = ModePolyline, layer_coords = [\<lparr>wx = 0, wz = 0\<rparr>, \<lparr>wx = 10, wz = 0\<rparr>, \<lparr>wx = 10, wz = 10\<rparr>, \<lparr>wx = 0, wz = 0\<rparr>]\<rparr>] Map.empty (Some \<lparr>wx = 4, wz = 5\<rparr>) 7
     = Some [\<lparr>wx = 0, wz = 0\<rparr>, \<lparr>wx = 4, wz = 0\<rparr>, \<lparr>wx = 10, wz = 0\<rparr>, \<lparr>wx = 10, wz = 10\<rparr>]"
    by (simp add: onMapClick_add_def getEffectiveCoords_def closing_duplicate
        closing_polyline_best insertIndex_of_def splice_insert_def SNAP_MAX_DIST_def Let_def)
  have d: "hit_dist (closestPointOnSegment \<lparr>wx = 4, wz = 5\<rparr> \<lparr>wx = 10, wz = 10\<rparr> \<lparr>wx = 0, wz = 0\<rparr>) < 1"
    by (simp add: closestPointOnSegment_def isFinite_def clamp01_def hypot_def Let_def)
  show ?thesis using a b c d by blast
qed

text \<open>
  C9, amended. In add mode take a target layer that is a polygon, or a polyline whose
  point list does not end with its first point. The ring is the layer's current point
  list (its pending edit, if it has one), for a polygon without the closing duplicate of
  its first point when the list ends with one; for the polyline it is the list itself.
  Its segments run from point \<open>i\<close> to point \<open>(i + 1) mod n\<close>, for \<open>i < n - 1\<close> on a polyline
  and \<open>i < n\<close> on a polygon, the last one being the wrap-around segment. A ring of fewer
  than two points has no segment and the click changes nothing. Otherwise let \<open>i\<close> be the
  index of a nearest segment, the one \<open>closestPointOnRings\<close> returns. If its distance
  exceeds 20 the pending edits are unchanged. If not, the layer's pending points become
  the ring with the projected point inserted at index \<open>i + 1\<close>, right after the start of
  the segment; for the wrap-around segment of a polygon \<open>i + 1\<close> is the length of the
  ring, and the point is appended at the end.
\<close>

theorem C9_insert_control_point:
  fixes pendingEdits :: "int \<rightharpoonup> WorldPoint list" and w :: WorldPoint
    and layer :: MeasuringLayerLite
  defines "coords \<equiv> getEffectiveCoords pendingEdits layer"
  defines "dup \<equiv> 2 \<le> length coords \<and> samePoint (coords ! 0) (coords ! (length coords - 1))"
  assumes found: "find (\<lambda>l. layer_id l = target) measuringLayers = Some layer"
    and lmode: "layer_mode layer = ModePolygon \<or> (layer_mode layer = ModePolyline \<and> \<not> dup)"
  defines "ring \<equiv> if dup then butlast coords else coords"
  defines "nseg \<equiv> if length ring < 2 then 0
                   else if layer_mode layer = ModePolygon then length ring else length ring - 1"
  defines "proj \<equiv> \<lambda>i. closestPointOnSegment w (ring ! i) (ring ! ((i + 1) mod length ring))"
  defines "result \<equiv> onMapClick_add True (Some target) measuringLayers pendingEdits (Some w)"
  shows "(layer_mode layer = ModePolyline \<longrightarrow> ring = coords)
       \<and> (nseg = 0 \<longrightarrow> result = pendingEdits)
       \<and> (0 < nseg \<longrightarrow>
           (\<exists>i < nseg. (\<forall>j < nseg. hit_dist (proj i) \<le> hit_dist (proj j))
              \<and> best_segIndex (closestPointOnRings w
                    \<lparr>rings = [ring], closed = [layer_mode layer = ModePolygon]\<rparr>) = int i
              \<and> (hit_dist (proj i) > SNAP_MAX_DIST \<longrightarrow> result = pendingEdits)
              \<and> (hit_dist (proj i) \<le> SNAP_MAX_DIST \<longrightarrow>
                   result = pendingEdits(layer_id layer \<mapsto>
                              take (i + 1) ring @ [hit_point (proj i)] @ drop (i + 1) ring)
                   \<and> (i = length ring - 1 \<longrightarrow>
                        result = pendingEdits(layer_id layer \<mapsto>
                                   ring @ [hit_point (proj i)])))))"
proof -
  have m: "layer_mode layer = ModePolyline \<or> layer_mode layer = ModePolygon"
    using lmode by blast
  have l: "layer_mode layer = ModePolyline \<longrightarrow> ring = coords"
    using lmode by (auto simp: ring_def)
  note main = insert_on_ring [OF found m, of pendingEdits w]
  show ?thesis
    unfolding result_def proj_def nseg_def ring_def dup_def coords_def
    apply (rule conjI)
     apply (rule l [unfolded ring_def dup_def coords_def])
    apply (rule main)
    done
qed

text \<open>
  The theorem on a polygon layer with the points \<open>(0,0), (10,0), (10,10)\<close> and a click
  at \<open>(5, 5)\<close>, which lies on the wrap-around segment: the point is appended.
\<close>

theorem C9_insert_control_point_witness:
  "find (\<lambda>l. layer_id l = 7)
     [\<lparr>layer_id = 7, layer_mode = ModePolygon, layer_coords = [\<lparr>wx = 0, wz = 0\<rparr>, \<lparr>wx = 10, wz = 0\<rparr>, \<lparr>wx = 10, wz = 10\<rparr>]\<rparr>]
   = Some \<lparr>layer_id = 7, layer_mode = ModePolygon, layer_coords = [\<lparr>wx = 0, wz = 0\<rparr>, \<lparr>wx = 10, wz = 0\<rparr>, \<lparr>wx = 10, wz = 10\<rparr>]\<rparr>
   \<and> layer_mode \<lparr>layer_id = 7, layer_mode = ModePolygon, layer_coords = [\<lparr>wx = 0, wz = 0\<rparr>, \<lparr>wx = 10, wz = 0\<rparr>, \<lparr>wx = 10, wz = 10\<rparr>]\<rparr> = ModePolygon
   \<and> hit_dist (closestPointOnSegment \<lparr>wx = 5, wz = 5\<rparr> \<lparr>wx = 10, wz = 10\<rparr> \<lparr>wx = 0, wz = 0\<rparr>)
     \<le> SNAP_MAX_DIST
   \<and> onMapClick_add True (Some 7)
        [\<lparr>layer_id = 7, layer_mode = ModePolygon, layer_coords = [\<lparr>wx = 0, wz = 0\<rparr>, \<lparr>wx = 10, wz = 0\<rparr>, \<lparr>wx = 10, wz = 10\<rparr>]\<rparr>]
        Map.empty (Some \<lparr>wx = 5, wz = 5\<rparr>) 7
     = Some [\<lparr>wx = 0, wz = 0\<rparr>, \<lparr>wx = 10, wz = 0\<rparr>, \<lparr>wx = 10, wz = 10\<rparr>, \<lparr>wx = 5, wz = 5\<rparr>]"
proof -
  let ?coords = "[\<lparr>wx = 0, wz = 0\<rparr>, \<lparr>wx = 10, wz = 0\<rparr>, \<lparr>wx = 10, wz = 10\<rparr>]"
  let ?layer = "\<lparr>layer_id = 7, layer_mode = ModePolygon, layer_coords = ?coords\<rparr>"
  let ?w = "\<lparr>wx = 5, wz = 5\<rparr>"
  let ?proj = "\<lambda>i. closestPointOnSegment ?w (?coords ! i) (?coords ! ((i + 1) mod length ?coords))"
  let ?result = "onMapClick_add True (Some 7) [?layer] Map.empty (Some ?w)"
  have found: "find (\<lambda>l. layer_id l = 7) [?layer] = Some ?layer" by simp
  have lmode: "layer_mode ?layer = ModePolygon
      \<or> (layer_mode ?layer = ModePolyline
          \<and> \<not> (2 \<le> length (getEffectiveCoords Map.empty ?layer)
                \<and> samePoint (getEffectiveCoords Map.empty ?layer ! 0)
                     (getEffectiveCoords Map.empty ?layer
                      ! (length (getEffectiveCoords Map.empty ?layer) - 1))))" by simp
  have eff: "getEffectiveCoords Map.empty ?layer = ?coords"
    by (simp add: getEffectiveCoords_def)
  have dup: "(2 \<le> length ?coords \<and> samePoint (?coords ! 0) (?coords ! (length ?coords - 1)))
      = False"
    by (simp add: samePoint_def)
  have nseg: "(if length ?coords < 2 then 0
               else if layer_mode ?layer = ModePolygon then length ?coords
                    else length ?coords - 1) = 3"
    by simp
  have lid: "layer_id ?layer = 7" by simp
  note main = C9_insert_control_point [OF found lmode, where w = ?w,
      unfolded eff dup if_False nseg lid]
  have p2: "?proj 2 = \<lparr>hit_point = \<lparr>wx = 5, wz = 5\<rparr>, hit_t = 1 / 2, hit_dist = 0\<rparr>"
    using triangle_hits(3) by simp
  have pos: "0 < (3 :: nat)" by simp
  from main pos obtain i where i: "i < 3"
    and least: "\<forall>j < 3. hit_dist (?proj i) \<le> hit_dist (?proj j)"
    and near: "hit_dist (?proj i) \<le> SNAP_MAX_DIST \<longrightarrow>
           ?result = Map.empty(7 \<mapsto> take (i + 1) ?coords @ [hit_point (?proj i)]
                                       @ drop (i + 1) ?coords)"
    by blast
  have le: "hit_dist (?proj i) \<le> hit_dist (?proj 2)"
    by (rule least [rule_format, of 2]) simp
  from i have "i = 0 \<or> i = 1 \<or> i = 2" by auto
  then have i2: "i = 2"
  proof (elim disjE)
    assume "i = 0" with le show ?thesis unfolding p2 by (simp add: triangle_hits)
  next
    assume "i = 1" with le show ?thesis unfolding p2 by (simp add: triangle_hits)
  next
    assume "i = 2" then show ?thesis .
  qed
  have within: "hit_dist (?proj 2) \<le> SNAP_MAX_DIST" unfolding p2 by (simp add: SNAP_MAX_DIST_def)
  from near have "?result = Map.empty(7 \<mapsto> take (2 + 1) ?coords @ [hit_point (?proj 2)]
                                       @ drop (2 + 1) ?coords)"
    unfolding i2 using within by blast
  then have res: "?result 7 = Some (?coords @ [\<lparr>wx = 5, wz = 5\<rparr>])"
    unfolding p2 by simp
  have w2: "hit_dist (closestPointOnSegment ?w \<lparr>wx = 10, wz = 10\<rparr> \<lparr>wx = 0, wz = 0\<rparr>)
     \<le> SNAP_MAX_DIST" using within by simp
  show ?thesis using found res w2 by simp
qed


subsection \<open>Path lengths\<close>

declare bezier_loop.simps [simp del]

lemma normalize_vec_checked_eq: "normalize_vec_checked v = Some (normalize_vec v)"
  by (simp add: normalize_vec_checked_def normalize_vec_def js_div_def Let_def)

lemma normalize_vec_zero: "normalize_vec \<lparr>px = 0, py = 0\<rparr> = \<lparr>px = 0, py = 0\<rparr>"
  by (simp add: normalize_vec_def)

lemma distance_self: "distance p p = 0"
  by (simp add: distance_def)

lemma bezier_weights:
  fixes t v :: real
  shows "(1 - t) * (1 - t) * v + 2 * (1 - t) * t * v + t * t * v = v"
  by (simp add: algebra_simps)

lemma bezier_point_same: "bezier_point p p p i n = p"
proof -
  define t where "t = real i / real n"
  show ?thesis
    unfolding bezier_point_def Let_def t_def [symmetric] bezier_weights
    by simp
qed

lemma bezier_loop_same: "bezier_loop p p p n i len p = len"
proof (induction "n + 1 - i" arbitrary: i len)
  case 0
  then show ?case by (subst bezier_loop.simps) simp
next
  case (Suc k)
  then have le: "i \<le> n" and k: "k = n + 1 - (i + 1)" by auto
  show ?case
    using le Suc.hyps(1) [OF k]
    by (subst bezier_loop.simps) (simp add: Let_def bezier_point_same distance_self)
qed

lemma quadraticBezierLength_same: "quadraticBezierLength p p p = 0"
  by (simp add: quadraticBezierLength_def bezier_loop_same)

text \<open>The coordinate transform, seen in the world plane, scales distances.\<close>

lemma sqrt_scaled:
  fixes k a b :: real
  shows "sqrt (k * a * (k * a) + k * b * (k * b)) = \<bar>k\<bar> * sqrt (a * a + b * b)"
proof -
  have "k * a * (k * a) + k * b * (k * b) = (k * k) * (a * a + b * b)"
    by (simp add: algebra_simps)
  then show ?thesis by (simp add: real_sqrt_mult)
qed

lemma distance_world:
  "distance (xz (toGameCoord a cc)) (xz (toGameCoord b cc))
   = \<bar>scale cc * multiplier cc\<bar> * distance a b"
proof -
  let ?k = "scale cc * multiplier cc"
  have x: "(px b * scale cc + offset cc) * multiplier cc - (px a * scale cc + offset cc) * multiplier cc
           = ?k * (px b - px a)"
    by (simp add: algebra_simps)
  have y: "(py b * scale cc + offset cc) * multiplier cc - (py a * scale cc + offset cc) * multiplier cc
           = ?k * (py b - py a)"
    by (simp add: algebra_simps)
  show ?thesis
    unfolding distance_def xz_def toGameCoord_def Let_def
    by (simp only: Coordinate.simps Point2D.simps x y sqrt_scaled)
qed

lemma bezier_point_world:
  "bezier_point (xz (toGameCoord p0 cc)) (xz (toGameCoord p1 cc)) (xz (toGameCoord p2 cc)) i n
   = xz (toGameCoord (bezier_point p0 p1 p2 i n) cc)"
proof -
  have w: "(1 - t) * (1 - t) * ((u0 * s + c) * m) + 2 * (1 - t) * t * ((u1 * s + c) * m)
            + t * t * ((u2 * s + c) * m)
           = (((1 - t) * (1 - t) * u0 + 2 * (1 - t) * t * u1 + t * t * u2) * s + c) * m"
    for t u0 u1 u2 s c m :: real
    by (simp add: algebra_simps)
  define t where "t = real i / real n"
  show ?thesis
    unfolding bezier_point_def Let_def t_def [symmetric] xz_def toGameCoord_def
    by (simp only: Coordinate.simps Point2D.simps w)
qed

lemma bezier_loop_world:
  "bezier_loop (xz (toGameCoord p0 cc)) (xz (toGameCoord p1 cc)) (xz (toGameCoord p2 cc)) n i
     (\<bar>scale cc * multiplier cc\<bar> * len) (xz (toGameCoord prev cc))
   = \<bar>scale cc * multiplier cc\<bar> * bezier_loop p0 p1 p2 n i len prev"
proof (induction "n + 1 - i" arbitrary: i len prev)
  case 0
  then have gt: "\<not> i \<le> n" by simp
  show ?case
    using gt by (subst (1 2) bezier_loop.simps) simp
next
  case (Suc k)
  then have le: "i \<le> n" and k: "k = n + 1 - (i + 1)" by auto
  let ?K = "\<bar>scale cc * multiplier cc\<bar>"
  let ?curr = "bezier_point p0 p1 p2 i n"
  have step: "?K * len + distance (xz (toGameCoord prev cc)) (xz (toGameCoord ?curr cc))
              = ?K * (len + distance prev ?curr)"
    by (simp add: distance_world algebra_simps)
  have "bezier_loop (xz (toGameCoord p0 cc)) (xz (toGameCoord p1 cc)) (xz (toGameCoord p2 cc)) n i
          (?K * len) (xz (toGameCoord prev cc))
        = bezier_loop (xz (toGameCoord p0 cc)) (xz (toGameCoord p1 cc)) (xz (toGameCoord p2 cc)) n
            (i + 1) (?K * (len + distance prev ?curr)) (xz (toGameCoord ?curr cc))"
    using le by (subst bezier_loop.simps) (simp add: Let_def bezier_point_world step)
  also have "\<dots> = ?K * bezier_loop p0 p1 p2 n (i + 1) (len + distance prev ?curr) ?curr"
    by (rule Suc.hyps(1) [OF k])
  also have "\<dots> = ?K * bezier_loop p0 p1 p2 n i len prev"
    using le by (subst (2) bezier_loop.simps) (simp add: Let_def)
  finally show ?case .
qed

lemma quadraticBezierLength_world:
  "quadraticBezierLength (xz (toGameCoord p0 cc)) (xz (toGameCoord p1 cc)) (xz (toGameCoord p2 cc))
   = \<bar>scale cc * multiplier cc\<bar> * quadraticBezierLength p0 p1 p2"
  using bezier_loop_world [of p0 cc p1 p2 10 1 0 p0]
  by (simp add: quadraticBezierLength_def)

lemma length_inv_empty: "length_inv cc ([], 0)"
  by (simp add: length_inv_def path_world_length_def)

lemma length_inv_push_line:
  assumes "0 \<le> multiplier cc" and "length_inv cc acc"
  shows "length_inv cc (push_line a b cc acc)"
  using assms(2)
  by (simp add: length_inv_def push_line_def Let_def path_world_length_def
      segment_world_length_def distance_world abs_mult abs_of_nonneg [OF assms(1)]
      algebra_simps)

lemma length_inv_push_quadratic:
  assumes "0 \<le> multiplier cc" and "length_inv cc acc"
  shows "length_inv cc (push_quadratic a c b cc acc)"
  using assms(2)
  by (simp add: length_inv_def push_quadratic_def Let_def path_world_length_def
      segment_world_length_def quadraticBezierLength_world abs_mult
      abs_of_nonneg [OF assms(1)] algebra_simps)

lemma perpendicular_length:
  assumes m: "0 \<le> multiplier cc"
  shows "path_world_length (segments (calculatePerpendicularPath from to config cc))
         = \<bar>scale cc\<bar> * path_length (calculatePerpendicularPath from to config cc)"
proof -
  have "length_inv cc (push_line a3 b3 cc (push_quadratic a2 c2 b2 cc (push_line a1 b1 cc ([], 0))))"
    for a1 b1 a2 c2 b2 a3 b3
    by (intro length_inv_push_line length_inv_push_quadratic length_inv_empty m)
  then show ?thesis
    by (simp add: calculatePerpendicularPath_def Let_def length_inv_def)
qed

lemma diagonal_length:
  assumes m: "0 \<le> multiplier cc"
  shows "path_world_length (segments (calculateDiagonalPath from to config cc))
         = \<bar>scale cc\<bar> * path_length (calculateDiagonalPath from to config cc)"
proof -
  have "length_inv cc
          (push_line a5 b5 cc (push_quadratic a4 c4 b4 cc (push_line a3 b3 cc
             (push_quadratic a2 c2 b2 cc (push_line a1 b1 cc ([], 0))))))"
    for a1 b1 a2 c2 b2 a3 b3 a4 c4 b4 a5 b5
    by (intro length_inv_push_line length_inv_push_quadratic length_inv_empty m)
  then show ?thesis
    by (simp add: calculateDiagonalPath_def Let_def length_inv_def)
qed

lemma simple_length:
  assumes m: "0 \<le> multiplier cc"
  shows "path_world_length (segments (calculateSimplePath from to config cc))
         = \<bar>scale cc\<bar> * path_length (calculateSimplePath from to config cc)"
  by (simp add: calculateSimplePath_def Let_def path_world_length_def segment_world_length_def
      distance_world abs_mult abs_of_nonneg [OF m])

lemma straight_length:
  assumes m: "0 \<le> multiplier cc"
  shows "path_world_length (segments (calculateStraightPath from to cc))
         = \<bar>scale cc\<bar> * path_length (calculateStraightPath from to cc)"
  by (simp add: calculateStraightPath_def Let_def path_world_length_def segment_world_length_def
      distance_world abs_mult abs_of_nonneg [OF m])

lemma coordConfig_of_shape:
  "scale (coordConfig_of worldId) = 1 \<and> 0 \<le> multiplier (coordConfig_of worldId)"
  by (simp add: coordConfig_of_def WORLD_COORD_CONFIGS_def DEFAULT_COORD_CONFIG_def)




subsection \<open>Coincident endpoints\<close>

lemma point_eta: "\<lparr>px = px p, py = py p\<rparr> = p"
  by (cases p) simp

lemma applyRoundCorner_same:
  "applyRoundCorner p p p factor = \<lparr>cornerStart = p, cornerEnd = p, control = p\<rparr>"
  by (simp add: applyRoundCorner_def Let_def normalize_vec_zero point_eta)

lemma push_line_same: "push_line p p cc acc = acc"
  by (simp add: push_line_def distance_self)

lemma push_quadratic_same: "push_quadratic p p p cc acc = acc"
  by (simp add: push_quadratic_def quadraticBezierLength_same)

text \<open>
  C10. \<open>normalize\<close> never divides by zero (its checked twin always returns a result) and
  maps the zero vector to the zero vector. So for coincident endpoints the offset
  vanishes: the simple and the straight builder return one segment from the point to
  itself with length 0, and the perpendicular and the diagonal builder, all of whose
  pieces have length 0, return no segment and length 0.
\<close>

theorem C10_coincident_endpoints:
  "normalize_vec_checked v = Some (normalize_vec v)
   \<and> normalize_vec \<lparr>px = 0, py = 0\<rparr> = \<lparr>px = 0, py = 0\<rparr>
   \<and> calculateSimplePath p p sconfig cc
       = \<lparr>segments = [\<lparr>seg_type = SegLine, points = [toGameCoord p cc, toGameCoord p cc]\<rparr>],
          path_length = 0\<rparr>
   \<and> calculateStraightPath p p cc
       = \<lparr>segments = [\<lparr>seg_type = SegLine, points = [toGameCoord p cc, toGameCoord p cc]\<rparr>],
          path_length = 0\<rparr>
   \<and> calculatePerpendicularPath p p pconfig cc = \<lparr>segments = [], path_length = 0\<rparr>
   \<and> calculateDiagonalPath p p dconfig cc = \<lparr>segments = [], path_length = 0\<rparr>"
proof -
  have simple: "calculateSimplePath p p sconfig cc
       = \<lparr>segments = [\<lparr>seg_type = SegLine, points = [toGameCoord p cc, toGameCoord p cc]\<rparr>],
          path_length = 0\<rparr>"
    by (simp add: calculateSimplePath_def Let_def normalize_vec_zero perpendicular_def
        distance_self point_eta)
  have straight: "calculateStraightPath p p cc
       = \<lparr>segments = [\<lparr>seg_type = SegLine, points = [toGameCoord p cc, toGameCoord p cc]\<rparr>],
          path_length = 0\<rparr>"
    by (simp add: calculateStraightPath_def Let_def distance_self)
  have perp: "calculatePerpendicularPath p p pconfig cc = \<lparr>segments = [], path_length = 0\<rparr>"
    by (simp add: calculatePerpendicularPath_def Let_def normalize_vec_zero perpendicular_def
        applyRoundCorner_same push_line_same push_quadratic_same point_eta)
  have diag: "calculateDiagonalPath p p dconfig cc = \<lparr>segments = [], path_length = 0\<rparr>"
    by (simp add: calculateDiagonalPath_def Let_def normalize_vec_zero perpendicular_def
        js_sign_or_1_def applyRoundCorner_same push_line_same push_quadratic_same)
  show ?thesis
    using normalize_vec_checked_eq [of v] normalize_vec_zero simple straight perp diag by simp
qed

section \<open>The parser\<close>

subsection \<open>The traversal\<close>

lemma dfs_rec_agrees:
  "(dfs_rec depth adj edgeMap node prevNode st = Some st' \<longrightarrow>
      (\<forall>todo. dfs adj edgeMap ((node, prevNode) # todo) st = dfs adj edgeMap todo st'))"
  "(dfs_loop depth adj edgeMap node nbs st = Some st' \<longrightarrow>
      (\<forall>todo. dfs adj edgeMap (map (\<lambda>neighbor. (neighbor, Some node)) nbs @ todo) st
              = dfs adj edgeMap todo st'))"
proof (induction depth adj edgeMap node prevNode st and depth adj edgeMap node nbs st
       arbitrary: st' and st' rule: dfs_rec_dfs_loop.induct)
  case (1 adj edgeMap node prevNode st)
  show ?case by simp
next
  case (2 depth adj edgeMap node prevNode st)
  show ?case
  proof (cases "node \<in> visited st")
    case True
    then show ?thesis by auto
  next
    case False
    then show ?thesis using "2.IH" [OF False, of st'] by simp
  qed
next
  case (3 depth adj edgeMap node st)
  show ?case by simp
next
  case (4 depth adj edgeMap node neighbor rest st)
  show ?case
  proof (cases "neighbor \<in> visited st")
    case True
    then show ?thesis using "4.IH"(3) [of st'] by simp
  next
    case False
    show ?thesis
    proof (intro impI allI)
      fix todo
      assume run: "dfs_loop depth adj edgeMap node (neighbor # rest) st = Some st'"
      with False obtain st1 where
        first: "dfs_rec depth adj edgeMap neighbor (Some node) st = Some st1"
        and more: "dfs_loop depth adj edgeMap node rest st1 = Some st'"
        by (auto split: option.splits)
      let ?todo = "map (\<lambda>neighbor. (neighbor, Some node)) rest @ todo"
      have "dfs adj edgeMap ((neighbor, Some node) # ?todo) st = dfs adj edgeMap ?todo st1"
        using "4.IH"(1) [OF False, of st1] first by blast
      also have "\<dots> = dfs adj edgeMap todo st'"
        using "4.IH"(2) [OF False first, of st'] more by blast
      finally show "dfs adj edgeMap
                      (map (\<lambda>neighbor. (neighbor, Some node)) (neighbor # rest) @ todo) st
                    = dfs adj edgeMap todo st'"
        by simp
    qed
  qed
qed


lemma unvisited_mono:
  "visited st \<subseteq> visited st' \<Longrightarrow> unvisited adj st' \<le> unvisited adj st"
  unfolding unvisited_def by (intro card_mono) auto

lemma visited_dfs_visit:
  "visited (dfs_visit edgeMap node prevNode st) = insert node (visited st)"
  by (simp add: dfs_visit_def Let_def split: option.splits)

lemma unvisited_dfs_visit:
  assumes "node \<notin> visited st" and "node \<in> fst ` set adj"
  shows "Suc (unvisited adj (dfs_visit edgeMap node prevNode st)) = unvisited adj st"
proof -
  let ?keys = "fst ` set adj"
  have fin: "finite (?keys - visited st)" by simp
  have mem: "node \<in> ?keys - visited st" using assms by simp
  have "?keys - insert node (visited st) = (?keys - visited st) - {node}" by auto
  then have "card (?keys - insert node (visited st)) = card (?keys - visited st) - 1"
    using fin mem by simp
  moreover have "0 < card (?keys - visited st)"
    using fin mem by (metis card_gt_0_iff empty_iff)
  ultimately show ?thesis by (simp add: unvisited_def visited_dfs_visit)
qed

lemma neighbors_of_key: "neighbors_of adj node \<noteq> [] \<Longrightarrow> node \<in> fst ` set adj"
  by (auto simp: neighbors_of_def dest: map_of_SomeD split: option.splits intro: rev_image_eqI)

lemma dfs_rec_returns:
  "(unvisited adj st + 1 < depth \<longrightarrow>
      (\<exists>st'. dfs_rec depth adj edgeMap node prevNode st = Some st'
             \<and> visited st \<subseteq> visited st'))"
  "((nbs \<noteq> [] \<longrightarrow> unvisited adj st + 1 < depth) \<longrightarrow>
      (\<exists>st'. dfs_loop depth adj edgeMap node nbs st = Some st'
             \<and> visited st \<subseteq> visited st'))"
proof (induction depth adj edgeMap node prevNode st and depth adj edgeMap node nbs st
       rule: dfs_rec_dfs_loop.induct)
  case (1 adj edgeMap node prevNode st)
  show ?case by simp
next
  case (2 depth adj edgeMap node prevNode st)
  show ?case
  proof (cases "node \<in> visited st")
    case True
    then show ?thesis by simp
  next
    case False
    let ?st1 = "dfs_visit edgeMap node prevNode st"
    show ?thesis
    proof
      assume bound: "unvisited adj st + 1 < Suc depth"
      have "neighbors_of adj node \<noteq> [] \<longrightarrow> unvisited adj ?st1 + 1 < depth"
      proof
        assume "neighbors_of adj node \<noteq> []"
        then have "node \<in> fst ` set adj" by (rule neighbors_of_key)
        from unvisited_dfs_visit [OF False this, of edgeMap prevNode] bound
        show "unvisited adj ?st1 + 1 < depth" by simp
      qed
      with "2.IH" [OF False] obtain st' where
        run: "dfs_loop depth adj edgeMap node (neighbors_of adj node) ?st1 = Some st'"
        and sub: "visited ?st1 \<subseteq> visited st'"
        by blast
      have "visited st \<subseteq> visited st'"
        using sub by (auto simp: visited_dfs_visit)
      with run False
      show "\<exists>st'. dfs_rec (Suc depth) adj edgeMap node prevNode st = Some st'
                  \<and> visited st \<subseteq> visited st'"
        by simp
    qed
  qed
next
  case (3 depth adj edgeMap node st)
  show ?case by simp
next
  case (4 depth adj edgeMap node neighbor rest st)
  show ?case
  proof
    assume "neighbor # rest \<noteq> [] \<longrightarrow> unvisited adj st + 1 < depth"
    then have bound: "unvisited adj st + 1 < depth" by simp
    show "\<exists>st'. dfs_loop depth adj edgeMap node (neighbor # rest) st = Some st'
                \<and> visited st \<subseteq> visited st'"
    proof (cases "neighbor \<in> visited st")
      case True
      with "4.IH"(3) bound show ?thesis by simp
    next
      case False
      from "4.IH"(1) [OF False] bound obtain st1 where
        first: "dfs_rec depth adj edgeMap neighbor (Some node) st = Some st1"
        and sub1: "visited st \<subseteq> visited st1"
        by blast
      have "unvisited adj st1 + 1 < depth"
        using unvisited_mono [OF sub1, of adj] bound by simp
      with "4.IH"(2) [OF False first] obtain st' where
        more: "dfs_loop depth adj edgeMap node rest st1 = Some st'"
        and sub2: "visited st1 \<subseteq> visited st'"
        by blast
      show ?thesis using False first more sub1 sub2 by auto
    qed
  qed
qed

lemma unvisited_bound: "unvisited adj st \<le> length adj"
proof -
  have "card (fst ` set adj - visited st) \<le> card (fst ` set adj)"
    by (intro card_mono) auto
  also have "\<dots> \<le> card (set adj)" by (rule card_image_le) simp
  also have "\<dots> \<le> length adj" by (rule card_length)
  finally show ?thesis by (simp add: unvisited_def)
qed

text \<open>
  The recursion of the source always returns within the depth \<open>length adj + 2\<close>, and it
  returns what \<open>dfs\<close> computes.
\<close>

lemma dfs_is_the_recursion:
  "dfs_rec (length adj + 2) adj edgeMap node prevNode st
   = Some (dfs adj edgeMap [(node, prevNode)] st)"
proof -
  have "unvisited adj st + 1 < length adj + 2"
    using unvisited_bound [of adj st] by simp
  with dfs_rec_returns(1) [of adj st "length adj + 2" edgeMap node prevNode]
  obtain st' where run: "dfs_rec (length adj + 2) adj edgeMap node prevNode st = Some st'"
    by blast
  from dfs_rec_agrees(1) [of "length adj + 2" adj edgeMap node prevNode st st'] run
  have "dfs adj edgeMap [(node, prevNode)] st = dfs adj edgeMap [] st'" by blast
  then show ?thesis using run by simp
qed

subsection \<open>The table of all stations\<close>

lemma set_js_dedupe: "set (js_dedupe xs) = set xs"
  by (simp add: js_dedupe_def)

lemma js_dedupe_nonempty: "xs \<noteq> [] \<Longrightarrow> js_dedupe xs \<noteq> []"
  using set_js_dedupe [of xs] by (metis set_empty)

lemma register_station_present:
  "name \<in> fst ` set tab \<Longrightarrow>
   register_station name station lineName tab
   = map (\<lambda>e. if fst e = name then (fst e, merged lineName (snd e)) else e) tab"
  by (simp add: register_station_def merged_def Let_def case_prod_beta)

lemma register_station_absent:
  "name \<notin> fst ` set tab \<Longrightarrow>
   register_station name station lineName tab = tab @ [(name, station)]"
  by (simp add: register_station_def)

lemma keys_register_station:
  "map fst (register_station name station lineName tab)
   = (if name \<in> fst ` set tab then map fst tab else map fst tab @ [name])"
proof (cases "name \<in> fst ` set tab")
  case True
  have "map fst (map (\<lambda>e. if fst e = name then (fst e, merged lineName (snd e)) else e) tab)
        = map fst tab"
    by (induction tab) auto
  then show ?thesis using True by (simp add: register_station_present)
next
  case False
  then show ?thesis by (simp add: register_station_absent)
qed

lemma map_of_merge:
  "map_of (map (\<lambda>e. if fst e = name then (fst e, f (snd e)) else e) tab) k
   = (if k = name then map_option f (map_of tab k) else map_of tab k)"
  by (induction tab) auto

lemma map_of_register_station:
  "map_of (register_station name station lineName tab) k
   = (if k = name then
        (case map_of tab name of
           Some existing \<Rightarrow> Some (merged lineName existing)
         | None \<Rightarrow> Some station)
      else map_of tab k)"
proof (cases "name \<in> fst ` set tab")
  case True
  then obtain g where "map_of tab name = Some g"
    by (metis map_of_eq_None_iff not_Some_eq)
  then show ?thesis
    using True by (simp add: register_station_present map_of_merge)
next
  case False
  then have "map_of tab name = None" by (simp add: map_of_eq_None_iff)
  then show ?thesis
    using False by (auto simp: register_station_absent map_add_def split: option.splits)
qed

lemma entry_ok_merged:
  assumes "entry_ok N (k, g)"
  shows "entry_ok N (k, merged lineName g)"
proof -
  have ne: "js_dedupe (st_lines g @ [lineName]) \<noteq> []"
    by (rule js_dedupe_nonempty) simp
  show ?thesis using assms ne by (simp add: entry_ok_def merged_def)
qed

lemma table_ok_register_station:
  assumes tab: "table_ok N tab"
    and node: "node \<in> N" "getStationName node = Some name"
    and station: "st_name station = name" "st_lines station = [lineName]"
      "isTransfer station = isTransferStation node"
  shows "table_ok N (register_station name station lineName tab)"
proof -
  have keys: "distinct (map fst (register_station name station lineName tab))"
    using tab by (auto simp: keys_register_station table_ok_def)
  have entries: "entry_ok N e" if e: "e \<in> set (register_station name station lineName tab)" for e
  proof (cases "name \<in> fst ` set tab")
    case True
    with e have "e \<in> (\<lambda>e. if fst e = name then (fst e, merged lineName (snd e)) else e) ` set tab"
      by (simp add: register_station_present)
    then obtain e0 where e0: "e0 \<in> set tab"
      and eq: "e = (if fst e0 = name then (fst e0, merged lineName (snd e0)) else e0)"
      by (rule imageE)
    from tab e0 have ok: "entry_ok N (fst e0, snd e0)" by (simp add: table_ok_def)
    show ?thesis
      using eq ok entry_ok_merged [OF ok, of lineName] by (cases "fst e0 = name") simp_all
  next
    case False
    with e have "e \<in> set tab \<or> e = (name, station)"
      by (auto simp: register_station_absent)
    then show ?thesis
    proof
      assume "e \<in> set tab"
      with tab show ?thesis by (simp add: table_ok_def)
    next
      assume "e = (name, station)"
      then show ?thesis using node station by (auto simp: entry_ok_def)
    qed
  qed
  show ?thesis using keys entries by (simp add: table_ok_def)
qed

lemma holds_line_register_station:
  assumes "holds_line tab k lname"
  shows "holds_line (register_station name station lineName tab) k lname"
proof -
  from assms obtain g where g: "map_of tab k = Some g" "lname \<in> set (st_lines g)"
    by (auto simp: holds_line_def)
  show ?thesis
  proof (cases "k = name")
    case True
    have "lname \<in> set (st_lines (merged lineName g))"
      using g(2) by (simp add: merged_def set_js_dedupe)
    then show ?thesis
      using True g(1) by (simp add: holds_line_def map_of_register_station)
  next
    case False
    then show ?thesis using g by (simp add: holds_line_def map_of_register_station)
  qed
qed

lemma holds_line_new:
  assumes "st_lines station = [lineName]"
  shows "holds_line (register_station name station lineName tab) name lineName"
proof (cases "map_of tab name")
  case None
  then show ?thesis using assms by (simp add: holds_line_def map_of_register_station)
next
  case (Some g)
  have "lineName \<in> set (st_lines (merged lineName g))"
    by (simp add: merged_def set_js_dedupe)
  then show ?thesis using Some by (simp add: holds_line_def map_of_register_station)
qed

subsection \<open>The loop over the station nodes of a line\<close>

lemma station_loop_table_ok:
  assumes "table_ok N tab" and "\<forall>e \<in> set stationNodes. fst e \<in> N"
  shows "table_ok N (snd (station_loop cc lineName stationNodes i (ls, tab)))"
  using assms
proof (induction stationNodes arbitrary: i ls tab)
  case Nil
  then show ?case by simp
next
  case (Cons e rest)
  obtain node oi where e: "e = (node, oi)" by (cases e) auto
  from Cons.prems have node: "node \<in> N" and rest: "\<forall>e \<in> set rest. fst e \<in> N"
    by (simp_all add: e)
  show ?case
  proof (cases "getStationName node")
    case None
    then show ?thesis using Cons.IH [OF Cons.prems(1) rest] by (simp add: e)
  next
    case (Some name)
    show ?thesis
    proof (cases "name = []")
      case True
      then show ?thesis using Some Cons.IH [OF Cons.prems(1) rest] by (simp add: e)
    next
      case False
      let ?station = "\<lparr>st_name = name,
                        st_coord = rmpToGameCoord (node_x node) (node_y node) cc,
                        stationCode = i + 1, isTransfer = isTransferStation node,
                        st_lines = [lineName]\<rparr>"
      have "table_ok N (register_station name ?station lineName tab)"
        by (rule table_ok_register_station [OF Cons.prems(1) node Some]) simp_all
      from Cons.IH [OF this rest] show ?thesis
        using Some False by (simp add: e Let_def)
    qed
  qed
qed

lemma station_loop_holds:
  assumes "\<forall>s \<in> set ls. holds_line tab (st_name s) lineName"
  shows "\<forall>s \<in> set (fst (station_loop cc lineName stationNodes i (ls, tab))).
           holds_line (snd (station_loop cc lineName stationNodes i (ls, tab))) (st_name s) lineName"
  using assms
proof (induction stationNodes arbitrary: i ls tab)
  case Nil
  then show ?case by simp
next
  case (Cons e rest)
  obtain node oi where e: "e = (node, oi)" by (cases e) auto
  show ?case
  proof (cases "getStationName node")
    case None
    then show ?thesis using Cons.IH [OF Cons.prems] by (simp add: e)
  next
    case (Some name)
    show ?thesis
    proof (cases "name = []")
      case True
      then show ?thesis using Some Cons.IH [OF Cons.prems] by (simp add: e)
    next
      case False
      let ?station = "\<lparr>st_name = name,
                        st_coord = rmpToGameCoord (node_x node) (node_y node) cc,
                        stationCode = i + 1, isTransfer = isTransferStation node,
                        st_lines = [lineName]\<rparr>"
      let ?tab = "register_station name ?station lineName tab"
      have "\<forall>s \<in> set (ls @ [?station]). holds_line ?tab (st_name s) lineName"
        using Cons.prems holds_line_register_station [of tab _ lineName name ?station lineName]
          holds_line_new [of ?station lineName name tab]
        by auto
      from Cons.IH [OF this] show ?thesis
        using Some False by (simp add: e Let_def)
    qed
  qed
qed

lemma station_loop_keeps:
  assumes "holds_line tab k lname"
  shows "holds_line (snd (station_loop cc lineName stationNodes i (ls, tab))) k lname"
  using assms
proof (induction stationNodes arbitrary: i ls tab)
  case Nil
  then show ?case by simp
next
  case (Cons e rest)
  obtain node oi where e: "e = (node, oi)" by (cases e) auto
  show ?case
  proof (cases "getStationName node")
    case None
    then show ?thesis using Cons.IH [OF Cons.prems] by (simp add: e)
  next
    case (Some name)
    show ?thesis
    proof (cases "name = []")
      case True
      then show ?thesis using Some Cons.IH [OF Cons.prems] by (simp add: e)
    next
      case False
      from Cons.IH [OF holds_line_register_station [OF Cons.prems]] show ?thesis
        using Some False by (simp add: e Let_def)
    qed
  qed
qed

lemma station_loop_length:
  "length (fst (station_loop cc lineName stationNodes i (ls, tab)))
   \<le> length ls + length stationNodes"
proof (induction stationNodes arbitrary: i ls tab)
  case Nil
  then show ?case by simp
next
  case (Cons e rest)
  obtain node oi where e: "e = (node, oi)" by (cases e) auto
  show ?case
  proof (cases "getStationName node")
    case None
    then show ?thesis using Cons.IH [of "i + 1" ls tab] by (simp add: e)
  next
    case (Some name)
    show ?thesis
    proof (cases "name = []")
      case True
      then show ?thesis using Some Cons.IH [of "i + 1" ls tab] by (simp add: e)
    next
      case False
      let ?station = "\<lparr>st_name = name,
                        st_coord = rmpToGameCoord (node_x node) (node_y node) cc,
                        stationCode = i + 1, isTransfer = isTransferStation node,
                        st_lines = [lineName]\<rparr>"
      show ?thesis
        using Some False
          Cons.IH [of "i + 1" "ls @ [?station]" "register_station name ?station lineName tab"]
        by (simp add: e Let_def)
    qed
  qed
qed

subsection \<open>The loop over the colour groups\<close>

lemma build_nodeMap_ran:
  "build_nodeMap nodes m k = Some n \<Longrightarrow> n \<in> set nodes \<or> m k = Some n"
proof (induction nodes arbitrary: m)
  case Nil
  then show ?case by simp
next
  case (Cons node nodes)
  from Cons.prems have "build_nodeMap nodes (m(node_key node \<mapsto> node)) k = Some n"
    by simp
  from Cons.IH [OF this] show ?case
    by (auto split: if_splits)
qed

lemma set_map_filter:
  "set (List.map_filter f xs) = {y. \<exists>x \<in> set xs. f x = Some y}"
  by (induction xs) (auto split: option.splits)

lemma stationNodes_ran:
  assumes "e \<in> set (stationNodesWithIndex nodeMap keys)"
  shows "\<exists>k. nodeMap k = Some (fst e)"
proof -
  from assms obtain i where
    "(case nodeMap (keys ! i) of
        Some node \<Rightarrow> if isStationNode node then Some (node, i) else None
      | None \<Rightarrow> None) = Some e"
    by (auto simp: stationNodesWithIndex_def set_map_filter)
  then have "nodeMap (keys ! i) = Some (fst e)"
    by (cases "nodeMap (keys ! i)") (auto split: if_splits)
  then show ?thesis by blast
qed

lemma line_ok_station_loop:
  assumes "line_ok tab l"
  shows "line_ok (snd (station_loop cc lineName stationNodes i (ls, tab))) l"
  using assms station_loop_keeps [of tab _ "line_name l" cc lineName stationNodes i ls]
  by (simp add: line_ok_def)

lemma build_line_ok:
  assumes ok: "build_ok N st" and ran: "\<forall>k n. nodeMap k = Some n \<longrightarrow> n \<in> N"
  shows "build_ok N (build_line nodeMap lineBadges cc st entry)"
proof -
  let ?ordered = "getOrderedStationsWithEdges (snd entry)"
  let ?sn = "stationNodesWithIndex nodeMap (fst ?ordered)"
  let ?placeholder = "line_prefix @ show_nat (lineIndex st)"
  let ?lineName = "case lineBadges (fst entry) of
                     Some badgeName \<Rightarrow> if badgeName = [] then ?placeholder else badgeName
                   | None \<Rightarrow> ?placeholder"
  let ?looped = "station_loop cc ?lineName ?sn 0 ([], allStationsMap st)"
  let ?newLine = "\<lparr>bureau = ''RMP'', line_name = ?lineName,
                  lineId = ''RMP-'' @ show_nat (lineIndex st),
                  line_stations = fst ?looped, line_color = fst entry,
                  edgePaths = build_edgePaths nodeMap (fst ?ordered) (snd ?ordered) cc ?sn\<rparr>"
  show ?thesis
  proof (cases "length ?sn < 2")
    case True
    then show ?thesis using ok by (simp add: build_line_def Let_def)
  next
    case False
    have in_N: "\<forall>e \<in> set ?sn. fst e \<in> N"
      using stationNodes_ran ran by blast
    have tab: "table_ok N (snd ?looped)"
      using ok in_N by (intro station_loop_table_ok) (simp_all add: build_ok_def)
    have old: "\<forall>l \<in> set (built_lines st). line_ok (snd ?looped) l"
      using ok line_ok_station_loop by (simp add: build_ok_def)
    show ?thesis
    proof (cases "length (fst ?looped) \<ge> 2")
      case two: True
      have result: "build_line nodeMap lineBadges cc st entry
          = st\<lparr>allStationsMap := snd ?looped,
                 built_lines := built_lines st @ [?newLine],
                 lineIndex := lineIndex st + 1\<rparr>"
        using False two by (simp add: build_line_def Let_def)
      have holds: "\<forall>s \<in> set (fst ?looped). holds_line (snd ?looped) (st_name s) ?lineName"
        by (rule station_loop_holds) simp
      have "length (fst ?looped) \<le> length ?sn"
        using station_loop_length [of cc ?lineName ?sn 0 "[]" "allStationsMap st"] by simp
      then have "length (fst ?looped) \<le> length (edgePaths ?newLine) + 1"
        using False by (simp add: build_edgePaths_def)
      then have new: "line_ok (snd ?looped) ?newLine"
        using two holds by (simp add: line_ok_def)
      show ?thesis
        unfolding result using tab old new by (simp add: build_ok_def)
    next
      case few: False
      have result: "build_line nodeMap lineBadges cc st entry
          = st\<lparr>allStationsMap := snd ?looped\<rparr>"
        using False few by (simp add: build_line_def Let_def)
      show ?thesis
        unfolding result using tab old by (simp add: build_ok_def)
    qed
  qed
qed

lemma foldl_build_line_ok:
  assumes "build_ok N st" and "\<forall>k n. nodeMap k = Some n \<longrightarrow> n \<in> N"
  shows "build_ok N (foldl (build_line nodeMap lineBadges cc) st groups)"
  using assms(1)
proof (induction groups arbitrary: st)
  case Nil
  then show ?case by simp
next
  case (Cons g groups)
  from Cons.IH [OF build_line_ok [OF Cons.prems assms(2)]] show ?case by simp
qed

lemma parseRMPData_final:
  "parseRMPData data worldId
   = \<lparr>parsed_lines =
        map (\<lambda>line. line\<lparr>line_stations :=
               map (update_station (allStationsMap (final_state data worldId)))
                   (line_stations line)\<rparr>)
            (built_lines (final_state data worldId)),
      parsed_stations = map snd (allStationsMap (final_state data worldId))\<rparr>"
  by (simp add: parseRMPData_def final_state_def Let_def)

lemma final_state_ok: "build_ok (set (graph_nodes data)) (final_state data worldId)"
  unfolding final_state_def
proof (rule foldl_build_line_ok)
  show "build_ok (set (graph_nodes data)) \<lparr>built_lines = [], allStationsMap = [], lineIndex = 1\<rparr>"
    by (simp add: build_ok_def table_ok_def)
  show "\<forall>k n. build_nodeMap (graph_nodes data) Map.empty k = Some n \<longrightarrow> n \<in> set (graph_nodes data)"
    using build_nodeMap_ran [of "graph_nodes data" Map.empty] by auto
qed

lemma update_station_holds:
  assumes "holds_line tab (st_name s) lname"
  shows "\<exists>g. map_of tab (st_name s) = Some g \<and> lname \<in> set (st_lines g)
             \<and> update_station tab s = s\<lparr>isTransfer := isTransfer g, st_lines := st_lines g\<rparr>"
  using assms by (auto simp: holds_line_def update_station_def)

text \<open>
  Every line of the result has at least two stations, and no more stations than one
  more than its edge paths.
\<close>

lemma emitted_line_shape:
  assumes "l \<in> set (parsed_lines (parseRMPData data worldId))"
  shows "2 \<le> length (line_stations l) \<and> length (line_stations l) \<le> length (edgePaths l) + 1"
proof -
  from assms obtain l0 where l0: "l0 \<in> set (built_lines (final_state data worldId))"
    and l: "l = l0\<lparr>line_stations :=
                 map (update_station (allStationsMap (final_state data worldId)))
                     (line_stations l0)\<rparr>"
    by (auto simp: parseRMPData_final)
  from final_state_ok [of data worldId] l0
  have "line_ok (allStationsMap (final_state data worldId)) l0"
    by (simp add: build_ok_def)
  then show ?thesis by (simp add: l line_ok_def)
qed

subsection \<open>Decimal numbers\<close>

lemma show_nat_1: "show_nat (Suc 0) = ''1''"
  by (subst show_nat.simps) (simp add: digit_char_def)

lemmas graph_defs =
  nameless_graph_def single_line_graph_def transfer_graph_def basic_node_def int_node_def
  plain_edge_def coloured_edge_def

lemmas parse_defs =
  final_state_def build_line_def getOrderedStationsWithEdges_def adj_ensure_def adj_add_def
  set_add_def edge_name_def dfs_visit_def neighbors_of_def getEdgeColor_def
  stationNodesWithIndex_def List.map_filter_simps isStationNode_def getStationName_def
  isTransferStation_def register_station_def js_dedupe_def show_nat_1
  build_edgePaths_def edgePath_between_def combine_edge_def calculateEdgePath_def Let_def

lemma show_nat_2: "show_nat (Suc (Suc 0)) = ''2''"
  by (subst show_nat.simps) (simp add: digit_char_def)

subsection \<open>The parser on the example graphs\<close>

lemma nameless_state:
  "map (\<lambda>l. (map st_name (line_stations l), length (edgePaths l)))
     (built_lines (final_state nameless_graph ''zth''))
   = [([''A'', ''C''], 2)]"
  by (simp add: parse_defs graph_defs)

lemma transfer_state:
  "map (\<lambda>l. (line_name l, map st_name (line_stations l)))
     (built_lines (final_state transfer_graph ''zth''))
   = [(line_prefix @ ''1'', [''X'', ''B'']), (line_prefix @ ''2'', [''X'', ''D''])]"
  by (simp add: parse_defs graph_defs show_nat_2)

subsection \<open>Transfer flags\<close>

lemma single_line_result:
  "parseRMPData single_line_graph ''zth''
   = \<lparr>parsed_lines =
        [\<lparr>bureau = ''RMP'', line_name = line_prefix @ ''1'', lineId = ''RMP-1'',
          line_stations =
            [\<lparr>st_name = ''A'', st_coord = rmpToGameCoord 0 0 (coordConfig_of ''zth''),
              stationCode = 1, isTransfer = True, st_lines = [line_prefix @ ''1'']\<rparr>,
             \<lparr>st_name = ''B'', st_coord = rmpToGameCoord 10 0 (coordConfig_of ''zth''),
              stationCode = 2, isTransfer = False, st_lines = [line_prefix @ ''1'']\<rparr>],
          line_color = ''#888888'',
          edgePaths =
            [calculateStraightPath \<lparr>px = 0, py = 0\<rparr> \<lparr>px = 10, py = 0\<rparr> (coordConfig_of ''zth'')]\<rparr>],
      parsed_stations =
        [\<lparr>st_name = ''A'', st_coord = rmpToGameCoord 0 0 (coordConfig_of ''zth''),
          stationCode = 1, isTransfer = True, st_lines = [line_prefix @ ''1'']\<rparr>,
         \<lparr>st_name = ''B'', st_coord = rmpToGameCoord 10 0 (coordConfig_of ''zth''),
          stationCode = 2, isTransfer = False, st_lines = [line_prefix @ ''1'']\<rparr>]\<rparr>"
  by (simp add: parseRMPData_final update_station_def parse_defs graph_defs
      calculateStraightPath_def)



lemma transfer_lines:
  "map (\<lambda>l. (line_name l, map st_name (line_stations l)))
     (parsed_lines (parseRMPData transfer_graph ''zth''))
   = [(line_prefix @ ''1'', [''X'', ''B'']), (line_prefix @ ''2'', [''X'', ''D''])]"
proof -
  have "map (\<lambda>l. (line_name l, map st_name (line_stations l)))
          (parsed_lines (parseRMPData transfer_graph ''zth''))
        = map (\<lambda>l. (line_name l,
                 map (\<lambda>s. st_name (update_station
                        (allStationsMap (final_state transfer_graph ''zth'')) s))
                     (line_stations l)))
            (built_lines (final_state transfer_graph ''zth''))"
    by (simp add: parseRMPData_final comp_def)
  also have "(\<lambda>s. st_name (update_station (allStationsMap (final_state transfer_graph ''zth'')) s))
             = st_name"
    by (rule ext) (simp add: update_station_def split: option.splits)
  finally show ?thesis by (simp add: transfer_state)
qed


subsection \<open>Stations and edge paths of a line\<close>

text \<open>
  C2 at a graph of three station nodes a - b - c in one colour, whose middle node has
  the empty name: the line has the two stations A and C, and two edge paths, one
  for each pair of consecutive station nodes.
\<close>

theorem C2_nameless_station:
  "length (parsed_lines (parseRMPData nameless_graph ''zth'')) = 1
   \<and> map st_name (line_stations (parsed_lines (parseRMPData nameless_graph ''zth'') ! 0))
       = [''A'', ''C'']
   \<and> length (line_stations (parsed_lines (parseRMPData nameless_graph ''zth'') ! 0)) = 2
   \<and> length (edgePaths (parsed_lines (parseRMPData nameless_graph ''zth'') ! 0)) = 2"
proof -
  let ?built = "built_lines (final_state nameless_graph ''zth'')"
  let ?lines = "parsed_lines (parseRMPData nameless_graph ''zth'')"
  have len: "length ?built = 1"
    using arg_cong [OF nameless_state, of length] by simp
  have view: "(map st_name (line_stations (?built ! 0)), length (edgePaths (?built ! 0)))
              = ([''A'', ''C''], 2)"
    using arg_cong [OF nameless_state, of "\<lambda>xs. xs ! 0"] len by simp
  have name: "st_name (update_station tab s) = st_name s" for tab s
    by (simp add: update_station_def split: option.splits)
  have l: "length ?lines = 1" using len by (simp add: parseRMPData_final)
  have "?lines ! 0 = (?built ! 0)\<lparr>line_stations :=
          map (update_station (allStationsMap (final_state nameless_graph ''zth'')))
              (line_stations (?built ! 0))\<rparr>"
    using len by (simp add: parseRMPData_final)
  then have "map st_name (line_stations (?lines ! 0)) = [''A'', ''C'']"
    and "length (edgePaths (?lines ! 0)) = 2"
    using view by (simp_all add: comp_def name)
  then show ?thesis using l by (metis length_map length_Cons list.size(3) One_nat_def
        Suc_1)
qed

end
